theory Spec2Isabelle
  imports Complex_Main "HOL-Library.Sublist" "HOL-Library.Multiset" "HOL-Library.Log_Nat"
begin

section \<open>JavaScript numbers\<close>

text \<open>
  A JavaScript \<open>number\<close> is an IEEE 754 double: a finite value (here the rational it
  denotes), one of the two zeros, \<open>NaN\<close> or an infinity. \<open>Finite 0\<close> is the positive
  zero. Every double is such a value; the operations below return doubles, and what is
  proved of all values of the type holds of the doubles among them.
\<close>

datatype number = Finite rat | MinusZero | NotANumber | PlusInfinity | MinusInfinity

text \<open>
  The exponent of a positive rational: the \<open>e\<close> with \<open>2 powi e \<le> x\<close> and
  \<open>x < 2 powi (e + 1)\<close>.
\<close>

definition ilog2 :: "rat \<Rightarrow> int" where
  "ilog2 x = (case quotient_of x of (p, q) \<Rightarrow>
     let d = bitlen p - bitlen q in if 2 powi d \<le> x then d else d - 1)"

text \<open>The nearest integer, a tie going to the even one.\<close>

definition roundHalfEven :: "rat \<Rightarrow> int" where
  "roundHalfEven y =
     (let f = \<lfloor>y\<rfloor>; r = y - of_int f
      in if r < 1 / 2 then f else if 1 / 2 < r then f + 1 else if even f then f else f + 1)"

text \<open>
  The double nearest to an exact result (round to nearest, ties to even): 53 bits of
  precision at the exponent of \<open>x\<close>, exponents below \<open>-1022\<close> sharing the subnormal
  spacing \<open>2 powi (-1074)\<close>; a result of magnitude \<open>2 powi 1024\<close> or more is an
  infinity, and a negative result that rounds to zero is the negative zero.
\<close>

definition roundDouble :: "rat \<Rightarrow> number" where
  "roundDouble x =
     (if x = 0 then Finite 0
      else let e = max (ilog2 \<bar>x\<bar>) (- 1022);
               q = 2 powi (e - 52);
               y = of_int (roundHalfEven (x / q)) * q
           in if 2 powi 1024 \<le> \<bar>y\<bar> then (if 0 < x then PlusInfinity else MinusInfinity)
              else if y = 0 then (if x < 0 then MinusZero else Finite 0)
              else Finite y)"

fun isNegative :: "number \<Rightarrow> bool" where
  "isNegative (Finite r) = (r < 0)"
| "isNegative MinusZero = True"
| "isNegative MinusInfinity = True"
| "isNegative PlusInfinity = False"
| "isNegative NotANumber = False"

fun isZero :: "number \<Rightarrow> bool" where
  "isZero (Finite r) = (r = 0)"
| "isZero MinusZero = True"
| "isZero _ = False"

fun isInfinite :: "number \<Rightarrow> bool" where
  "isInfinite PlusInfinity = True"
| "isInfinite MinusInfinity = True"
| "isInfinite _ = False"


text \<open>The value of a finite number (\<open>0\<close> for the others, where it is not used).\<close>

fun valueOf :: "number \<Rightarrow> rat" where
  "valueOf (Finite r) = r"
| "valueOf _ = 0"

definition signedZero :: "bool \<Rightarrow> number" where
  "signedZero neg = (if neg then MinusZero else Finite 0)"

definition signedInfinity :: "bool \<Rightarrow> number" where
  "signedInfinity neg = (if neg then MinusInfinity else PlusInfinity)"

text \<open>\<open>a / b\<close> on numbers.\<close>

definition jsDivide :: "number \<Rightarrow> number \<Rightarrow> number" where
  "jsDivide a b =
     (let neg = (isNegative a \<noteq> isNegative b)
      in if a = NotANumber \<or> b = NotANumber then NotANumber
         else if isInfinite a then (if isInfinite b then NotANumber else signedInfinity neg)
         else if isInfinite b then signedZero neg
         else if isZero b then (if isZero a then NotANumber else signedInfinity neg)
         else if isZero a then signedZero neg
         else roundDouble (valueOf a / valueOf b))"

text \<open>\<open>a * b\<close> on numbers.\<close>

definition jsMultiply :: "number \<Rightarrow> number \<Rightarrow> number" where
  "jsMultiply a b =
     (let neg = (isNegative a \<noteq> isNegative b)
      in if a = NotANumber \<or> b = NotANumber then NotANumber
         else if isInfinite a \<or> isInfinite b
              then (if isZero a \<or> isZero b then NotANumber else signedInfinity neg)
         else if isZero a \<or> isZero b then signedZero neg
         else roundDouble (valueOf a * valueOf b))"

text \<open>
  \<open>Math.round\<close>: the nearest integer, a tie going up; \<open>NaN\<close>, the infinities and the
  zeros are returned as they are, and a negative number that rounds to zero gives the
  negative zero.
\<close>

fun mathRound :: "number \<Rightarrow> number" where
  "mathRound (Finite r) =
     (let n = \<lfloor>r + 1 / 2\<rfloor> in if n = 0 \<and> r < 0 then MinusZero else Finite (of_int n))"
| "mathRound x = x"

text \<open>\<open>x > 0\<close> on a number: false for \<open>NaN\<close> and for both zeros.\<close>

fun greaterThanZero :: "number \<Rightarrow> bool" where
  "greaterThanZero (Finite r) = (0 < r)"
| "greaterThanZero PlusInfinity = True"
| "greaterThanZero _ = False"

section \<open>Integer-valued numbers, strings\<close>

text \<open>
  The numbers that \<open>parseInt\<close> returns, kept as integers: an integer-valued double, \<open>NaN\<close>
  or an infinity. The port and the batch size are such numbers.
\<close>

datatype jsnum = Num int | NaN | PosInfinity | NegInfinity

text \<open>Truthiness of a number: \<open>0\<close> and \<open>NaN\<close> are falsy.\<close>

fun truthy :: "jsnum \<Rightarrow> bool" where
  "truthy (Num n) = (n \<noteq> 0)"
| "truthy NaN = False"
| "truthy PosInfinity = True"
| "truthy NegInfinity = True"

text \<open>The number for a mathematical integer: the nearest double.\<close>

definition numberOfInteger :: "int \<Rightarrow> jsnum" where
  "numberOfInteger n =
     (case roundDouble (of_int n) of
        Finite y \<Rightarrow> Num \<lfloor>y\<rfloor>
      | MinusZero \<Rightarrow> Num 0
      | NotANumber \<Rightarrow> NaN
      | PlusInfinity \<Rightarrow> PosInfinity
      | MinusInfinity \<Rightarrow> NegInfinity)"

text \<open>
  A string is the UTF-8 encoding of the JavaScript string. The white space that
  \<open>parseInt\<close> skips and \<open>trim\<close> removes is the code points U+0009 to U+000D, U+0020,
  U+00A0, U+1680, U+2000 to U+200A, U+2028, U+2029, U+202F, U+205F, U+3000 and U+FEFF,
  listed here by their encodings.
\<close>

definition whiteSpaceSeqs :: "nat list list" where
  "whiteSpaceSeqs =
     [[9], [10], [11], [12], [13], [32], [194, 160], [225, 154, 128]]
     @ map (\<lambda>n. [226, 128, n]) [128..<139]
     @ [[226, 128, 168], [226, 128, 169], [226, 128, 175], [226, 129, 159],
        [227, 128, 128], [239, 187, 191]]"

text \<open>The length of the first of the sequences that the string starts with, else 0.\<close>

definition matchLength :: "nat list list \<Rightarrow> string \<Rightarrow> nat" where
  "matchLength seqs s =
     (case find (\<lambda>w. w \<noteq> [] \<and> prefix w (map of_char s)) seqs of
        None \<Rightarrow> 0 | Some w \<Rightarrow> length w)"

text \<open>The string without the sequences it starts with.\<close>

function stripWith :: "nat list list \<Rightarrow> string \<Rightarrow> string" where
  "stripWith seqs s =
     (if matchLength seqs s = 0 then s else stripWith seqs (drop (matchLength seqs s) s))"
  by pat_completeness auto
termination
proof (relation "measure (\<lambda>(seqs, s). length s)")
  show "wf (measure (\<lambda>(seqs, s). length s))" by simp
next
  fix seqs :: "nat list list" and s :: string
  assume m: "matchLength seqs s \<noteq> 0"
  then obtain w where "find (\<lambda>w. w \<noteq> [] \<and> prefix w (map of_char s)) seqs = Some w"
    by (auto simp: matchLength_def split: option.splits)
  then have "w \<noteq> [] \<and> prefix w (map of_char s)"
    by (auto simp: find_Some_iff)
  then have "s \<noteq> []" by auto
  with m show "((seqs, drop (matchLength seqs s) s), (seqs, s)) \<in> measure (\<lambda>(seqs, s). length s)"
    by simp
qed

declare stripWith.simps [simp del]

text \<open>\<open>s.trim()\<close>: white space is removed at both ends.\<close>

definition trim :: "string \<Rightarrow> string" where
  "trim s = rev (stripWith (map rev whiteSpaceSeqs) (rev (stripWith whiteSpaceSeqs s)))"

text \<open>The value of a character as a digit, up to radix 16.\<close>

definition digitValue :: "char \<Rightarrow> nat option" where
  "digitValue c =
     (let n = (of_char c :: nat) in
      if 48 \<le> n \<and> n \<le> 57 then Some (n - 48)
      else if 97 \<le> n \<and> n \<le> 102 then Some (n - 87)
      else if 65 \<le> n \<and> n \<le> 70 then Some (n - 55)
      else None)"

definition isRadixDigit :: "nat \<Rightarrow> char \<Rightarrow> bool" where
  "isRadixDigit r c = (case digitValue c of None \<Rightarrow> False | Some d \<Rightarrow> d < r)"

definition digitsValue :: "nat \<Rightarrow> string \<Rightarrow> int" where
  "digitsValue r z = foldl (\<lambda>acc c. acc * int r + int (the (digitValue c))) 0 z"

text \<open>
  \<open>parseInt(s)\<close> without a radix: leading white space is skipped, a sign is read, a
  prefix \<open>0x\<close> or \<open>0X\<close> selects radix 16, and the longest run of digits is converted
  to the nearest number; with no digit the result is \<open>NaN\<close>.
\<close>

definition parseInt :: "string \<Rightarrow> jsnum" where
  "parseInt inputString =
     (let s0 = stripWith whiteSpaceSeqs inputString;
          neg = (s0 \<noteq> [] \<and> hd s0 = CHR ''-'');
          s1 = (if s0 \<noteq> [] \<and> (hd s0 = CHR ''-'' \<or> hd s0 = CHR ''+'') then tl s0 else s0);
          hex = (take 2 s1 = ''0x'' \<or> take 2 s1 = ''0X'');
          r = (if hex then 16 else 10);
          s2 = (if hex then drop 2 s1 else s1);
          z = takeWhile (isRadixDigit r) s2
      in if z = [] then NaN
         else numberOfInteger ((if neg then - 1 else 1) * digitsValue r z))"

text \<open>\<open>xs.join(sep)\<close> on an array of strings.\<close>

fun join :: "string \<Rightarrow> string list \<Rightarrow> string" where
  "join sep [] = []"
| "join sep [x] = x"
| "join sep (x # y # ys) = x @ sep @ join sep (y # ys)"

section \<open>Types of \<open>App.tsx\<close>\<close>

text \<open>
  \<open>port\<close> is declared a number; an entry read back from local storage may lack it
  (\<open>null\<close> or \<open>undefined\<close>), which is \<open>None\<close>.
\<close>

record ConnectionConfig =
  host :: string
  port :: "jsnum option"
  database :: string
  username :: string
  password :: string

record ConnectionStatus =
  conn_id :: string
  connected :: bool
  conn_database :: string
  conn_host :: string
  conn_error :: "string option"

record TableInfo =
  name :: string
  schema :: string
  row_count :: int
  size_bytes :: int
  diff_status :: "string option"
  statusDetails :: "string option"

record SchemaDiff =
  diff_schema :: string
  diff_table :: string
  sd_status :: string
  sd_details :: "string option"

record MigrationProgress =
  table_name :: string
  current_table :: number
  total_tables :: number
  rows_transferred :: number
  total_rows :: number
  status :: string
  error :: "string option"

record MigrationOptions =
  create_table_if_not_exists :: bool
  truncate_before_insert :: bool
  disable_constraints :: bool
  batch_size :: jsnum

record MigrationResult =
  success :: bool
  tables_migrated :: int
  result_total_rows :: int
  errors :: "string list"
  elapsed_ms :: int

record SavedConnection =
  saved_name :: string
  config :: ConnectionConfig

text \<open>The object \<open>{ schema, name }\<close> sent to the backend for a table.\<close>

record TableRef =
  ref_schema :: string
  ref_name :: string

record MigrationRequest =
  source_connection_id :: string
  target_connection_id :: string
  tables :: "TableRef list"
  req_options :: MigrationOptions
  target_schema_override :: "string option"

text \<open>The commands of the backend that the front-end invokes.\<close>

datatype command =
    ConnectDatabase ConnectionConfig
  | DisconnectDatabase string
  | GetTables string
  | GetSchemas string
  | AnalyzeSchema string string "TableRef list"
  | SortTablesByDependency string "TableRef list"
  | StartMigration MigrationRequest
  | CancelMigration

record AppState =
  sourceConnection :: "ConnectionStatus option"
  targetConnection :: "ConnectionStatus option"
  sourceConfig :: ConnectionConfig
  targetConfig :: ConnectionConfig
  savedConnections :: "SavedConnection list"
  sourceTables :: "TableInfo list"
  targetTables :: "TableInfo list"
  targetSchemas :: "string list"
  selectedTables :: "string set"
  isAnalyzing :: bool
  isSorting :: bool
  isMigrating :: bool
  progress :: "MigrationProgress option"
  lastResult :: "MigrationResult option"
  targetSchema :: string
  options :: MigrationOptions

definition defaultConfig :: ConnectionConfig where
  "defaultConfig =
     \<lparr>host = ''localhost'', port = Some (Num 5432), database = '''',
      username = ''postgres'', password = ''''\<rparr>"

definition defaultOptions :: MigrationOptions where
  "defaultOptions =
     \<lparr>create_table_if_not_exists = True, truncate_before_insert = False,
      disable_constraints = True, batch_size = Num 1000\<rparr>"

text \<open>The state of \<open>App\<close> at its first render, given what local storage holds.\<close>

definition initialState :: "SavedConnection list \<Rightarrow> AppState" where
  "initialState saved =
     \<lparr>sourceConnection = None, targetConnection = None,
      sourceConfig = defaultConfig, targetConfig = defaultConfig,
      savedConnections = saved,
      sourceTables = [], targetTables = [], targetSchemas = [],
      selectedTables = {},
      isAnalyzing = False, isSorting = False, isMigrating = False,
      progress = None, lastResult = None, targetSchema = '''',
      options = defaultOptions\<rparr>"

section \<open>Saved connections\<close>

definition handleSaveConnection :: "SavedConnection \<Rightarrow> SavedConnection list \<Rightarrow> SavedConnection list" where
  "handleSaveConnection newConnection prev =
     filter (\<lambda>c. saved_name c \<noteq> saved_name newConnection) prev @ [newConnection]"

definition handleDeleteConnection :: "string \<Rightarrow> SavedConnection list \<Rightarrow> SavedConnection list" where
  "handleDeleteConnection nm prev = filter (\<lambda>c. saved_name c \<noteq> nm) prev"

section \<open>\<open>ConnectionForm\<close>: connecting\<close>

text \<open>\<open>config.port || 5432\<close>: a missing or falsy port gives way to the default.\<close>

definition portOrDefault :: "jsnum option \<Rightarrow> jsnum" where
  "portOrDefault p = (case p of None \<Rightarrow> Num 5432 | Some v \<Rightarrow> if truthy v then v else Num 5432)"

definition finalConfig :: "ConnectionConfig \<Rightarrow> ConnectionConfig" where
  "finalConfig cfg = cfg\<lparr>port := Some (portOrDefault (port cfg))\<rparr>"

text \<open>The synchronous part of \<open>handleConnect\<close>: the command it invokes.\<close>

definition handleConnect :: "ConnectionConfig \<Rightarrow> command" where
  "handleConnect cfg = ConnectDatabase (finalConfig cfg)"

text \<open>
  The port field's \<open>onChange\<close>: an empty field is port \<open>0\<close>, anything else goes
  through \<open>parseInt\<close>.
\<close>

definition portChange :: "string \<Rightarrow> ConnectionConfig \<Rightarrow> ConnectionConfig" where
  "portChange v cfg = cfg\<lparr>port := Some (if v = '''' then Num 0 else parseInt v)\<rparr>"

text \<open>
  After \<open>connect_database\<close> resolved: the connection is auto-saved unless some saved
  entry has the same host, database and username. The result is the entry to save.
\<close>

definition autoSave :: "ConnectionConfig \<Rightarrow> SavedConnection list \<Rightarrow> SavedConnection option" where
  "autoSave cfg saved =
     (if list_ex (\<lambda>c. host (config c) = host cfg \<and> database (config c) = database cfg
                       \<and> username (config c) = username cfg) saved
      then None
      else Some \<lparr>saved_name = database cfg @ '' @ '' @ host cfg, config = cfg\<rparr>)"

section \<open>\<open>ProgressBar\<close>\<close>

text \<open>\<open>Math.round((a / b) * 100)\<close>.\<close>

definition percentOf :: "number \<Rightarrow> number \<Rightarrow> number" where
  "percentOf a b = mathRound (jsMultiply (jsDivide a b) (Finite 100))"

definition overallPercent :: "MigrationProgress \<Rightarrow> number" where
  "overallPercent p =
     (if greaterThanZero (total_tables p) then percentOf (current_table p) (total_tables p)
      else Finite 0)"

definition tablePercent :: "MigrationProgress \<Rightarrow> number" where
  "tablePercent p =
     (if greaterThanZero (total_rows p) then percentOf (rows_transferred p) (total_rows p)
      else Finite 0)"

text \<open>What the bar shows. Row counts are kept as numbers: their text depends on the locale.\<close>

record BarView =
  bar_complete :: bool
  bar_title :: string
  bar_table_of :: "number \<times> number"
  bar_overall :: number
  bar_table :: string
  bar_table_percent :: number
  bar_rows :: "number \<times> number"
  bar_status :: string
  bar_error :: "string option"

datatype progress_view = Preparing | Bar BarView

definition ProgressBar :: "MigrationProgress option \<Rightarrow> progress_view" where
  "ProgressBar pr =
     (case pr of
        None \<Rightarrow> Preparing
      | Some p \<Rightarrow>
          Bar \<lparr>bar_complete = (status p = ''Complete''),
               bar_title = (if status p = ''Complete'' then ''Migration complete''
                            else ''Migrating: '' @ table_name p),
               bar_table_of = (current_table p, total_tables p),
               bar_overall = overallPercent p,
               bar_table = table_name p,
               bar_table_percent = tablePercent p,
               bar_rows = (rows_transferred p, total_rows p),
               bar_status = status p,
               bar_error = (case error p of None \<Rightarrow> None
                            | Some e \<Rightarrow> if e = [] then None else Some e)\<rparr>)"

text \<open>The listener of \<open>migration-progress\<close> events.\<close>

definition onProgress :: "MigrationProgress \<Rightarrow> AppState \<Rightarrow> AppState" where
  "onProgress payload st = st\<lparr>progress := Some payload\<rparr>"

text \<open>The progress area of \<open>App\<close>: shown while migrating or while a snapshot is stored.\<close>

definition progressArea :: "AppState \<Rightarrow> progress_view option" where
  "progressArea st =
     (if isMigrating st \<or> progress st \<noteq> None then Some (ProgressBar (progress st)) else None)"

section \<open>Swapping source and target\<close>

definition handleSwap :: "AppState \<Rightarrow> AppState" where
  "handleSwap st =
     st\<lparr>sourceConnection := targetConnection st,
        targetConnection := sourceConnection st,
        sourceConfig := targetConfig st,
        targetConfig := sourceConfig st,
        sourceTables := targetTables st,
        targetTables := sourceTables st,
        selectedTables := {}\<rparr>"

section \<open>Tables, keys and the order of migration\<close>

text \<open>The key \<open>`${t.schema}.${t.name}`\<close> under which a table is selected.\<close>

definition tableKey :: "TableInfo \<Rightarrow> string" where
  "tableKey t = schema t @ ''.'' @ name t"

definition refKey :: "TableRef \<Rightarrow> string" where
  "refKey r = ref_schema r @ ''.'' @ ref_name r"

definition toRef :: "TableInfo \<Rightarrow> TableRef" where
  "toRef t = \<lparr>ref_schema = schema t, ref_name = name t\<rparr>"

text \<open>The selected tables, in the order of \<open>sourceTables\<close>, as sent to the backend.\<close>

definition selectedList :: "AppState \<Rightarrow> TableRef list" where
  "selectedList st =
     map toRef (filter (\<lambda>t. tableKey t \<in> selectedTables st) (sourceTables st))"

section \<open>\<open>handleMigrate\<close>\<close>

text \<open>
  Up to the \<open>await\<close>: nothing happens without both connections or with an empty
  selection; otherwise the flags are set and \<open>start_migration\<close> is invoked.
\<close>

definition handleMigrate :: "AppState \<Rightarrow> AppState \<times> command list" where
  "handleMigrate st =
     (case (sourceConnection st, targetConnection st) of
        (Some s, Some t) \<Rightarrow>
          if selectedTables st = {} then (st, [])
          else
            (st\<lparr>isMigrating := True, progress := None, lastResult := None\<rparr>,
             [StartMigration
                \<lparr>source_connection_id = conn_id s,
                 target_connection_id = conn_id t,
                 tables = selectedList st,
                 req_options = options st,
                 target_schema_override =
                   (if trim (targetSchema st) = [] then None
                    else Some (trim (targetSchema st)))\<rparr>])
      | _ \<Rightarrow> (st, []))"

text \<open>
  The promise resolved: the result is stored and the target tables are fetched again
  (with the connection id the handler captured); then the \<open>finally\<close> block.
\<close>

definition migrateResolved :: "string \<Rightarrow> MigrationResult \<Rightarrow> AppState \<Rightarrow> AppState \<times> command list" where
  "migrateResolved targetId result st =
     (st\<lparr>lastResult := Some result, isMigrating := False, progress := None\<rparr>,
      [GetTables targetId])"

text \<open>The promise rejected; \<open>err\<close> is \<open>String(error)\<close>. Then the \<open>finally\<close> block.\<close>

definition migrateRejected :: "string \<Rightarrow> AppState \<Rightarrow> AppState" where
  "migrateRejected err st =
     st\<lparr>lastResult := Some \<lparr>success = False, tables_migrated = 0, result_total_rows = 0,
                             errors = [err], elapsed_ms = 0\<rparr>,
        isMigrating := False, progress := None\<rparr>"

definition handleCancel :: "command list" where
  "handleCancel = [CancelMigration]"

text \<open>
  The result banner of \<open>App\<close>. The success text formats its numbers by locale, so the
  numbers are kept; the error text is the joined list of errors.
\<close>

datatype banner = SuccessBanner int int int | ErrorBanner string

definition resultBanner :: "AppState \<Rightarrow> banner option" where
  "resultBanner st =
     (case lastResult st of
        None \<Rightarrow> None
      | Some r \<Rightarrow>
          if isMigrating st then None
          else Some (if success r
                     then SuccessBanner (tables_migrated r) (result_total_rows r) (elapsed_ms r)
                     else ErrorBanner (''Migration failed: '' @ join '', '' (errors r))))"

section \<open>\<open>handleSort\<close>\<close>

definition MAX_SAFE_INTEGER :: int where
  "MAX_SAFE_INTEGER = 9007199254740991"

text \<open>\<open>sorted.forEach((t, i) => sortedMap.set(key, i))\<close>: a later entry overwrites.\<close>

definition sortedMap :: "TableRef list \<Rightarrow> (string \<rightharpoonup> nat)" where
  "sortedMap sortedRefs =
     foldl (\<lambda>m (t, i). m(refKey t \<mapsto> i)) Map.empty (zip sortedRefs [0..<length sortedRefs])"

definition sortIndex :: "(string \<rightharpoonup> nat) \<Rightarrow> TableInfo \<Rightarrow> int" where
  "sortIndex m t = (case m (tableKey t) of Some i \<Rightarrow> int i | None \<Rightarrow> MAX_SAFE_INTEGER)"

text \<open>The comparator handed to \<open>next.sort\<close>.\<close>

definition compareTables :: "(string \<rightharpoonup> nat) \<Rightarrow> TableInfo \<Rightarrow> TableInfo \<Rightarrow> int" where
  "compareTables m a b =
     (let idxA = sortIndex m a; idxB = sortIndex m b
      in if idxA \<noteq> idxB then idxA - idxB else 0)"

text \<open>
  \<open>Array.prototype.sort\<close> is stable: elements the comparator does not separate keep
  their order. The stable order is computed here by insertion.
\<close>

fun insertBy :: "('a \<Rightarrow> 'a \<Rightarrow> int) \<Rightarrow> 'a \<Rightarrow> 'a list \<Rightarrow> 'a list" where
  "insertBy cmp x [] = [x]"
| "insertBy cmp x (y # ys) = (if cmp x y \<le> 0 then x # y # ys else y # insertBy cmp x ys)"

definition arraySort :: "('a \<Rightarrow> 'a \<Rightarrow> int) \<Rightarrow> 'a list \<Rightarrow> 'a list" where
  "arraySort cmp xs = foldr (insertBy cmp) xs []"

definition handleSort :: "AppState \<Rightarrow> AppState \<times> command list" where
  "handleSort st =
     (case sourceConnection st of
        None \<Rightarrow> (st, [])
      | Some s \<Rightarrow>
          if selectedTables st = {} then (st, [])
          else (st\<lparr>isSorting := True\<rparr>, [SortTablesByDependency (conn_id s) (selectedList st)]))"

definition sortResolved :: "TableRef list \<Rightarrow> AppState \<Rightarrow> AppState" where
  "sortResolved sortedRefs st =
     st\<lparr>sourceTables := arraySort (compareTables (sortedMap sortedRefs)) (sourceTables st),
        isSorting := False\<rparr>"

definition sortRejected :: "AppState \<Rightarrow> AppState" where
  "sortRejected st = st\<lparr>isSorting := False\<rparr>"

section \<open>\<open>handleAnalyze\<close>\<close>

definition handleAnalyze :: "AppState \<Rightarrow> AppState \<times> command list" where
  "handleAnalyze st =
     (case (sourceConnection st, targetConnection st) of
        (Some s, Some t) \<Rightarrow>
          (st\<lparr>isAnalyzing := True\<rparr>,
           [AnalyzeSchema (conn_id s) (conn_id t) (map toRef (sourceTables st))])
      | _ \<Rightarrow> (st, []))"

definition applyDiff :: "SchemaDiff list \<Rightarrow> TableInfo \<Rightarrow> TableInfo" where
  "applyDiff ds t =
     (case find (\<lambda>d. diff_schema d = schema t \<and> diff_table d = name t) ds of
        Some d \<Rightarrow> t\<lparr>diff_status := Some (sd_status d), statusDetails := sd_details d\<rparr>
      | None \<Rightarrow> t)"

definition analyzeResolved :: "SchemaDiff list \<Rightarrow> AppState \<Rightarrow> AppState" where
  "analyzeResolved ds st =
     st\<lparr>sourceTables := map (applyDiff ds) (sourceTables st), isAnalyzing := False\<rparr>"

definition analyzeRejected :: "AppState \<Rightarrow> AppState" where
  "analyzeRejected st = st\<lparr>isAnalyzing := False\<rparr>"

section \<open>\<open>MigrationPanel\<close>\<close>

text \<open>The values of the batch-size \<open>select\<close>, as the DOM hands them to \<open>onChange\<close>.\<close>

definition batchSizeChoices :: "string list" where
  "batchSizeChoices = [''100'', ''1000'', ''10000'', ''50000'']"

text \<open>\<open>handleOptionChange(key, value)\<close> as the panel calls it: a key with its value.\<close>

datatype option_change =
    Set_create_table_if_not_exists bool
  | Set_truncate_before_insert bool
  | Set_batch_size jsnum

fun handleOptionChange :: "option_change \<Rightarrow> MigrationOptions \<Rightarrow> MigrationOptions" where
  "handleOptionChange (Set_create_table_if_not_exists v) opts = opts\<lparr>create_table_if_not_exists := v\<rparr>"
| "handleOptionChange (Set_truncate_before_insert v) opts = opts\<lparr>truncate_before_insert := v\<rparr>"
| "handleOptionChange (Set_batch_size v) opts = opts\<lparr>batch_size := v\<rparr>"

text \<open>The controls of the panel: two check boxes and the select.\<close>

datatype panel_input = ClickCreate | ClickTruncate | SelectBatch string

fun panelInput :: "panel_input \<Rightarrow> MigrationOptions \<Rightarrow> MigrationOptions" where
  "panelInput ClickCreate opts =
     handleOptionChange (Set_create_table_if_not_exists (\<not> create_table_if_not_exists opts)) opts"
| "panelInput ClickTruncate opts =
     handleOptionChange (Set_truncate_before_insert (\<not> truncate_before_insert opts)) opts"
| "panelInput (SelectBatch v) opts = handleOptionChange (Set_batch_size (parseInt v)) opts"

text \<open>The action button: Cancel while migrating, else Migrate, enabled by \<open>canMigrate\<close>.\<close>

datatype action_button = CancelButton | MigrateButton bool

definition actionButton :: "bool \<Rightarrow> bool \<Rightarrow> action_button" where
  "actionButton migrating can = (if migrating then CancelButton else MigrateButton can)"

definition isConnected :: "ConnectionStatus option \<Rightarrow> bool" where
  "isConnected c = (case c of None \<Rightarrow> False | Some s \<Rightarrow> connected s)"

definition canMigrate :: "AppState \<Rightarrow> bool" where
  "canMigrate st =
     (isConnected (sourceConnection st) \<and> isConnected (targetConnection st)
      \<and> selectedTables st \<noteq> {})"

section \<open>The application as a transition system\<close>

datatype side = Source | Target

fun connectionOf :: "side \<Rightarrow> AppState \<Rightarrow> ConnectionStatus option" where
  "connectionOf Source st = sourceConnection st"
| "connectionOf Target st = targetConnection st"

fun configOf :: "side \<Rightarrow> AppState \<Rightarrow> ConnectionConfig" where
  "configOf Source st = sourceConfig st"
| "configOf Target st = targetConfig st"

fun setConnection :: "side \<Rightarrow> ConnectionStatus option \<Rightarrow> AppState \<Rightarrow> AppState" where
  "setConnection Source c st = st\<lparr>sourceConnection := c\<rparr>"
| "setConnection Target c st = st\<lparr>targetConnection := c\<rparr>"

fun setConfig :: "side \<Rightarrow> ConnectionConfig \<Rightarrow> AppState \<Rightarrow> AppState" where
  "setConfig Source c st = st\<lparr>sourceConfig := c\<rparr>"
| "setConfig Target c st = st\<lparr>targetConfig := c\<rparr>"

fun setTables :: "side \<Rightarrow> TableInfo list \<Rightarrow> AppState \<Rightarrow> AppState" where
  "setTables Source ts st = st\<lparr>sourceTables := ts\<rparr>"
| "setTables Target ts st = st\<lparr>targetTables := ts\<rparr>"

text \<open>
  The effects on \<open>sourceConnection\<close> and \<open>targetConnection\<close>: a live connection has
  its tables (and, for the target, its schemas) fetched, otherwise the lists are
  emptied.
\<close>

fun connectionEffect :: "side \<Rightarrow> AppState \<Rightarrow> AppState \<times> command list" where
  "connectionEffect Source st =
     (case sourceConnection st of
        Some c \<Rightarrow> if connected c then (st, [GetTables (conn_id c)])
                  else (st\<lparr>sourceTables := []\<rparr>, [])
      | None \<Rightarrow> (st\<lparr>sourceTables := []\<rparr>, []))"
| "connectionEffect Target st =
     (case targetConnection st of
        Some c \<Rightarrow> if connected c then (st, [GetTables (conn_id c), GetSchemas (conn_id c)])
                  else (st\<lparr>targetTables := [], targetSchemas := []\<rparr>, [])
      | None \<Rightarrow> (st\<lparr>targetTables := [], targetSchemas := []\<rparr>, []))"

text \<open>
  \<open>handleConnect\<close> after \<open>connect_database\<close> resolved, with the config and the saved
  list the handler captured: \<open>onConnect(status)\<close>, then the auto-save.
\<close>

definition connectResolved ::
  "side \<Rightarrow> ConnectionConfig \<Rightarrow> SavedConnection list \<Rightarrow> ConnectionStatus \<Rightarrow> AppState \<Rightarrow> AppState" where
  "connectResolved sd cfg saved st_new st =
     (let st1 = setConnection sd (Some st_new) st
      in case autoSave cfg saved of
           None \<Rightarrow> st1
         | Some c \<Rightarrow> st1\<lparr>savedConnections := handleSaveConnection c (savedConnections st1)\<rparr>)"

definition handleDisconnect :: "ConnectionStatus option \<Rightarrow> command list" where
  "handleDisconnect c = (case c of None \<Rightarrow> [] | Some s \<Rightarrow> [DisconnectDatabase (conn_id s)])"

text \<open>
  What can happen to the application: an input of the user on a control that is
  rendered and enabled, or the completion of something the front-end started. A handler
  that awaits is split at the \<open>await\<close>: the click runs the part before it, and the
  resolution or rejection of the promise is an event of its own that carries what the
  handler had captured (a config, the saved list, a connection id). The callbacks that
  \<open>ConnectionForm\<close> and \<open>TableList\<close> receive may be called with any value, and an
  effect may run after any event.
\<close>

datatype event =
    ConfigChange side ConnectionConfig
  | ConnectClick side
  | ConnectResolved side ConnectionConfig "SavedConnection list" ConnectionStatus
  | DisconnectClick side
  | DisconnectSettled side
  | SaveConnection SavedConnection
  | DeleteConnection string
  | ConnectionEffect side
  | TablesFetched side "TableInfo list"
  | SchemasFetched "string list"
  | SelectionChange "string set"
  | SwapClick
  | AnalyzeClick
  | AnalyzeResolved "SchemaDiff list"
  | AnalyzeRejected
  | SortClick
  | SortResolved "TableRef list"
  | SortRejected
  | MigrateClick
  | MigrateResolved string MigrationResult
  | MigrateRejected string
  | CancelClick
  | ProgressEvent MigrationProgress
  | PanelInput panel_input
  | TargetSchemaChange string

fun panelEnabled :: "panel_input \<Rightarrow> bool" where
  "panelEnabled (SelectBatch v) = (v \<in> set batchSizeChoices)"
| "panelEnabled _ = True"

text \<open>
  One event on the state the last render showed: \<open>None\<close> when the control is not
  rendered or is disabled, else the next state and the commands invoked.
\<close>

fun appStep :: "event \<Rightarrow> AppState \<Rightarrow> (AppState \<times> command list) option" where
  "appStep (ConfigChange sd cfg) st = Some (setConfig sd cfg st, [])"
| "appStep (ConnectClick sd) st =
     (if isConnected (connectionOf sd st) \<or> database (configOf sd st) = [] then None
      else Some (st, [handleConnect (configOf sd st)]))"
| "appStep (ConnectResolved sd cfg saved c) st = Some (connectResolved sd cfg saved c st, [])"
| "appStep (DisconnectClick sd) st =
     (if isConnected (connectionOf sd st) then Some (st, handleDisconnect (connectionOf sd st))
      else None)"
| "appStep (DisconnectSettled sd) st = Some (setConnection sd None st, [])"
| "appStep (SaveConnection c) st =
     Some (st\<lparr>savedConnections := handleSaveConnection c (savedConnections st)\<rparr>, [])"
| "appStep (DeleteConnection n) st =
     Some (st\<lparr>savedConnections := handleDeleteConnection n (savedConnections st)\<rparr>, [])"
| "appStep (ConnectionEffect sd) st = Some (connectionEffect sd st)"
| "appStep (TablesFetched sd ts) st = Some (setTables sd ts st, [])"
| "appStep (SchemasFetched ss) st = Some (st\<lparr>targetSchemas := ss\<rparr>, [])"
| "appStep (SelectionChange sel) st = Some (st\<lparr>selectedTables := sel\<rparr>, [])"
| "appStep SwapClick st = (if isMigrating st then None else Some (handleSwap st, []))"
| "appStep AnalyzeClick st =
     (if targetConnection st = None \<or> isAnalyzing st then None else Some (handleAnalyze st))"
| "appStep (AnalyzeResolved ds) st = Some (analyzeResolved ds st, [])"
| "appStep AnalyzeRejected st = Some (analyzeRejected st, [])"
| "appStep SortClick st =
     (if isSorting st \<or> selectedTables st = {} then None else Some (handleSort st))"
| "appStep (SortResolved refs) st = Some (sortResolved refs st, [])"
| "appStep SortRejected st = Some (sortRejected st, [])"
| "appStep MigrateClick st =
     (if actionButton (isMigrating st) (canMigrate st) = MigrateButton True
      then Some (handleMigrate st) else None)"
| "appStep (MigrateResolved tid r) st = Some (migrateResolved tid r st)"
| "appStep (MigrateRejected err) st = Some (migrateRejected err st, [])"
| "appStep CancelClick st =
     (if actionButton (isMigrating st) (canMigrate st) = CancelButton
      then Some (st, handleCancel) else None)"
| "appStep (ProgressEvent p) st = Some (onProgress p st, [])"
| "appStep (PanelInput i) st =
     (if panelEnabled i then Some (st\<lparr>options := panelInput i (options st)\<rparr>, []) else None)"
| "appStep (TargetSchemaChange s) st = Some (st\<lparr>targetSchema := s\<rparr>, [])"

text \<open>
  The application together with the number of \<open>start_migration\<close> promises that have
  not settled. A promise can settle only while one is pending.
\<close>

record System =
  app :: AppState
  pendingMigrations :: nat

fun isSettle :: "event \<Rightarrow> bool" where
  "isSettle (MigrateResolved tid r) = True"
| "isSettle (MigrateRejected err) = True"
| "isSettle _ = False"

fun isStart :: "command \<Rightarrow> bool" where
  "isStart (StartMigration r) = True"
| "isStart _ = False"

fun isSortCommand :: "command \<Rightarrow> bool" where
  "isSortCommand (SortTablesByDependency c ts) = True"
| "isSortCommand _ = False"

definition step :: "System \<Rightarrow> event \<Rightarrow> (System \<times> command list) option" where
  "step s e =
     (if isSettle e \<and> pendingMigrations s = 0 then None
      else case appStep e (app s) of
             None \<Rightarrow> None
           | Some (st', cmds) \<Rightarrow>
               Some (\<lparr>app = st',
                      pendingMigrations =
                        pendingMigrations s + length (filter isStart cmds)
                          - (if isSettle e then 1 else 0)\<rparr>, cmds))"

inductive reachable :: "SavedConnection list \<Rightarrow> System \<Rightarrow> bool" for saved where
  reachable_init: "reachable saved \<lparr>app = initialState saved, pendingMigrations = 0\<rparr>"
| reachable_step: "reachable saved s \<Longrightarrow> step s e = Some (s', cmds) \<Longrightarrow> reachable saved s'"

text \<open>The system after a sequence of events, where each of them can happen.\<close>

fun run :: "System \<Rightarrow> event list \<Rightarrow> System option" where
  "run s [] = Some s"
| "run s (e # es) = (case step s e of None \<Rightarrow> None | Some (s', cmds) \<Rightarrow> run s' es)"

definition initialSystem :: "SavedConnection list \<Rightarrow> System" where
  "initialSystem saved = \<lparr>app = initialState saved, pendingMigrations = 0\<rparr>"

section \<open>Example states\<close>

definition exampleSaved :: "SavedConnection list" where
  "exampleSaved =
     [\<lparr>saved_name = ''prod'', config = defaultConfig\<rparr>,
      \<lparr>saved_name = ''dev'', config = defaultConfig\<lparr>database := ''dev''\<rparr>\<rparr>]"

definition exampleNew :: SavedConnection where
  "exampleNew = \<lparr>saved_name = ''prod'', config = defaultConfig\<lparr>host := ''db1''\<rparr>\<rparr>"





definition pastedPortConfig :: ConnectionConfig where
  "pastedPortConfig = portChange ''.5'' (defaultConfig\<lparr>database := ''shop''\<rparr>)"

definition demoSource :: ConnectionStatus where
  "demoSource = \<lparr>conn_id = ''c1'', connected = True, conn_database = ''shop'',
                  conn_host = ''localhost'', conn_error = None\<rparr>"

definition demoTarget :: ConnectionStatus where
  "demoTarget = \<lparr>conn_id = ''c2'', connected = True, conn_database = ''copy'',
                  conn_host = ''localhost'', conn_error = None\<rparr>"

definition demoTable :: "string \<Rightarrow> TableInfo" where
  "demoTable n = \<lparr>name = n, schema = ''public'', row_count = 10, size_bytes = 8192,
                   diff_status = None, statusDetails = None\<rparr>"

definition demoTables :: "TableInfo list" where
  "demoTables = [demoTable ''orders'', demoTable ''audit'', demoTable ''users'']"

definition demoSelection :: "string set" where
  "demoSelection = {''public.users'', ''public.orders''}"

definition demoTrace :: "event list" where
  "demoTrace =
     [ConnectResolved Source (defaultConfig\<lparr>database := ''shop''\<rparr>) [] demoSource,
      ConnectResolved Target (defaultConfig\<lparr>database := ''copy''\<rparr>) [] demoTarget,
      TablesFetched Source demoTables,
      SelectionChange demoSelection,
      PanelInput (SelectBatch ''50000''),
      MigrateClick]"

definition demoState :: AppState where
  "demoState =
     (initialState [])\<lparr>sourceConnection := Some demoSource, targetConnection := Some demoTarget,
                        sourceTables := demoTables, selectedTables := demoSelection\<rparr>"

definition demoRequest :: MigrationRequest where
  "demoRequest =
     \<lparr>source_connection_id = ''c1'', target_connection_id = ''c2'',
      tables = [\<lparr>ref_schema = ''public'', ref_name = ''orders''\<rparr>,
                \<lparr>ref_schema = ''public'', ref_name = ''users''\<rparr>],
      req_options = defaultOptions, target_schema_override = None\<rparr>"

definition failedState :: AppState where
  "failedState =
     demoState\<lparr>lastResult := Some \<lparr>success = False, tables_migrated = 1, result_total_rows = 10,
                                   errors = [''orders: denied'', ''users: timeout''],
                                   elapsed_ms = 1200\<rparr>\<rparr>"

definition succeededState :: AppState where
  "succeededState =
     demoState\<lparr>lastResult := Some \<lparr>success = True, tables_migrated = 2, result_total_rows = 20,
                                   errors = [], elapsed_ms = 1200\<rparr>\<rparr>"

definition demoOrder :: "TableRef list" where
  "demoOrder = [\<lparr>ref_schema = ''public'', ref_name = ''users''\<rparr>,
                \<lparr>ref_schema = ''public'', ref_name = ''orders''\<rparr>]"

text \<open>Three tables, all selected, two of them with the key \<open>a.b.c\<close>.\<close>

definition tableOf :: "string \<Rightarrow> string \<Rightarrow> TableInfo" where
  "tableOf sch n = \<lparr>name = n, schema = sch, row_count = 10, size_bytes = 8192,
                     diff_status = None, statusDetails = None\<rparr>"

definition collisionState :: AppState where
  "collisionState =
     (initialState [])\<lparr>sourceConnection := Some demoSource, targetConnection := Some demoTarget,
                        sourceTables := [tableOf ''a.b'' ''c'', tableOf ''a'' ''b.c'',
                                         tableOf ''a'' ''z''],
                        selectedTables := {''a.b.c'', ''a.z''}\<rparr>"

definition collisionOrder :: "TableRef list" where
  "collisionOrder = [\<lparr>ref_schema = ''a'', ref_name = ''b.c''\<rparr>,
                     \<lparr>ref_schema = ''a'', ref_name = ''z''\<rparr>,
                     \<lparr>ref_schema = ''a.b'', ref_name = ''c''\<rparr>]"

section \<open>Rounding to a double\<close>

lemma ilog2_le:
  assumes "0 < x"
  shows "2 powi (ilog2 x) \<le> x"
proof -
  obtain p q where pq: "quotient_of x = (p, q)"
    by (cases "quotient_of x")
  have q: "0 < q" using pq by (rule quotient_of_denom_pos)
  have x: "x = of_int p / of_int q" using pq by (rule quotient_of_div)
  with assms q have p: "0 < p"
    by (simp add: zero_less_divide_iff)
  define d where "d = bitlen p - bitlen q"
  show ?thesis
  proof (cases "2 powi d \<le> x")
    case True
    then show ?thesis by (simp add: ilog2_def pq d_def)
  next
    case False
    have bp: "1 \<le> bitlen p" using p by (auto simp: bitlen_alt_def)
    have "(2::int) ^ nat (bitlen p - 1) \<le> p" using bitlen_bounds [OF p] by simp
    then have "(of_int ((2::int) ^ nat (bitlen p - 1)) :: rat) \<le> of_int p"
      by (simp only: of_int_le_iff)
    then have lo: "(2::rat) powi (bitlen p - 1) \<le> of_int p"
      using bp by (simp add: power_int_nonneg_exp)
    have "q < (2::int) ^ nat (bitlen q)" using bitlen_bounds [OF q] by simp
    then have "(of_int q :: rat) < of_int ((2::int) ^ nat (bitlen q))"
      by (simp only: of_int_less_iff)
    then have hi: "(of_int q :: rat) \<le> 2 powi (bitlen q)"
      using bitlen_nonneg [of q] by (simp add: power_int_nonneg_exp)
    have "d - 1 = (bitlen p - 1) - bitlen q"
      by (simp add: d_def)
    then have "(2::rat) powi (d - 1) = 2 powi (bitlen p - 1) / 2 powi (bitlen q)"
      by (simp only: power_int_diff [of "2::rat", simplified])
    also have "\<dots> \<le> of_int p / of_int q"
      using lo hi p q by (intro frac_le) simp_all
    finally have "(2::rat) powi (d - 1) \<le> x" using x by simp
    with False show ?thesis by (simp add: ilog2_def pq d_def)
  qed
qed











lemma exp_less_of_power_less:
  assumes "(2::rat) powi a < 2 powi b"
  shows "a < b"
proof (rule ccontr)
  assume "\<not> a < b"
  then have "b \<le> a" by simp
  then have "(2::rat) powi b \<le> 2 powi a"
    by (rule power_int_increasing) simp
  with assms show False by simp
qed

lemma ilog2_less:
  assumes "0 < x"
  shows "x < 2 powi (ilog2 x + 1)"
proof -
  obtain p q where pq: "quotient_of x = (p, q)"
    by (cases "quotient_of x")
  have q: "0 < q" using pq by (rule quotient_of_denom_pos)
  have x: "x = of_int p / of_int q" using pq by (rule quotient_of_div)
  with assms q have p: "0 < p"
    by (simp add: zero_less_divide_iff)
  define d where "d = bitlen p - bitlen q"
  show ?thesis
  proof (cases "2 powi d \<le> x")
    case True
    have bq: "1 \<le> bitlen q" using q by (auto simp: bitlen_alt_def)
    have "p < (2::int) ^ nat (bitlen p)" using bitlen_bounds [OF p] by simp
    then have "(of_int p :: rat) < of_int ((2::int) ^ nat (bitlen p))"
      by (simp only: of_int_less_iff)
    then have hi: "(of_int p :: rat) < 2 powi (bitlen p)"
      using bitlen_nonneg [of p] by (simp add: power_int_nonneg_exp)
    have "(2::int) ^ nat (bitlen q - 1) \<le> q" using bitlen_bounds [OF q] by simp
    then have "(of_int ((2::int) ^ nat (bitlen q - 1)) :: rat) \<le> of_int q"
      by (simp only: of_int_le_iff)
    then have lo: "(2::rat) powi (bitlen q - 1) \<le> of_int q"
      using bq by (simp add: power_int_nonneg_exp)
    have "x < 2 powi (bitlen p) / 2 powi (bitlen q - 1)"
      unfolding x using lo hi p q by (intro frac_less) simp_all
    also have "d + 1 = bitlen p - (bitlen q - 1)"
      by (simp add: d_def)
    then have "(2::rat) powi (bitlen p) / 2 powi (bitlen q - 1) = 2 powi (d + 1)"
      by (simp only: power_int_diff [of "2::rat", simplified])
    finally show ?thesis using True by (simp add: ilog2_def pq d_def)
  next
    case False
    then show ?thesis by (simp add: ilog2_def pq d_def)
  qed
qed

lemma ilog2_eqI:
  assumes "2 powi e \<le> x" and "x < 2 powi (e + 1)"
  shows "ilog2 x = e"
proof -
  have "(0::rat) < 2 powi e" by simp
  with assms(1) have x: "0 < x" by linarith
  from ilog2_le [OF x] assms(2) have "(2::rat) powi (ilog2 x) < 2 powi (e + 1)" by linarith
  then have 1: "ilog2 x < e + 1" by (rule exp_less_of_power_less)
  from ilog2_less [OF x] assms(1) have "(2::rat) powi e < 2 powi (ilog2 x + 1)" by linarith
  then have "e < ilog2 x + 1" by (rule exp_less_of_power_less)
  with 1 show ?thesis by simp
qed

lemma floor_rat_numeral:
  "\<lfloor>(numeral a :: rat) / numeral b\<rfloor> = numeral a div numeral b"
  using floor_divide_of_int_eq [of "numeral a" "numeral b", where ?'a = rat] by simp

lemma roundHalfEven_of_int: "roundHalfEven (of_int k) = k"
  by (simp add: roundHalfEven_def)

text \<open>An integer of magnitude below \<open>2 ^ 53\<close> is a double.\<close>

lemma roundDouble_of_int:
  assumes "n \<noteq> 0" and "\<bar>n\<bar> < 2 ^ 53"
  shows "roundDouble (of_int n) = Finite (of_int n)"
proof -
  define e where "e = max (ilog2 \<bar>of_int n\<bar>) (- 1022)"
  define q :: rat where "q = 2 powi (e - 52)"
  have "(2::rat) powi (ilog2 \<bar>of_int n\<bar>) \<le> \<bar>of_int n\<bar>"
    using assms(1) by (intro ilog2_le) simp
  also have "\<bar>of_int n :: rat\<bar> < 2 powi 53"
    using assms(2) by (metis of_int_abs of_int_less_iff of_int_numeral of_int_power power_int_numeral)
  finally have "ilog2 \<bar>of_int n\<bar> < 53" by (rule exp_less_of_power_less)
  then have e: "e \<le> 52" by (simp add: e_def)
  define k where "k = n * 2 ^ nat (52 - e)"
  have "e - 52 = - (52 - e)" by simp
  then have q: "q = inverse (2 ^ nat (52 - e))"
    unfolding q_def using e by (simp only: power_int_minus) (simp add: power_int_nonneg_exp)
  then have d: "of_int n / q = of_int k"
    by (simp add: k_def divide_inverse)
  have y: "of_int (roundHalfEven (of_int n / q)) * q = (of_int n :: rat)"
    unfolding d roundHalfEven_of_int by (simp add: k_def q)
  have "\<bar>of_int n :: rat\<bar> < 2 powi 53" by fact
  also have "(2::rat) powi 53 \<le> 2 powi 1024" by simp
  finally have "\<not> 2 powi 1024 \<le> \<bar>of_int n :: rat\<bar>" by simp
  with assms(1) y show ?thesis
    by (simp add: roundDouble_def Let_def e_def [symmetric] q_def [symmetric])
qed

lemma numberOfInteger_exact: "\<bar>n\<bar> < 2 ^ 53 \<Longrightarrow> numberOfInteger n = Num n"
proof (cases "n = 0")
  case True
  then show ?thesis by (simp add: numberOfInteger_def roundDouble_def)
next
  case False
  assume "\<bar>n\<bar> < 2 ^ 53"
  from roundDouble_of_int [OF False this] show ?thesis
    by (simp add: numberOfInteger_def)
qed

text \<open>A larger integer is rounded: \<open>2 ^ 53 + 1\<close> becomes \<open>2 ^ 53\<close>.\<close>

lemma numberOfInteger_rounds: "numberOfInteger 9007199254740993 = Num 9007199254740992"
proof -
  have "ilog2 \<bar>9007199254740993 :: rat\<bar> = 53" by (rule ilog2_eqI) simp_all
  then have "roundDouble 9007199254740993 = Finite 9007199254740992"
    by (simp add: roundDouble_def Let_def roundHalfEven_def floor_rat_numeral)
  then show ?thesis
    by (simp add: numberOfInteger_def)
qed

section \<open>Strings without white space\<close>

lemma matchLength_Nil: "matchLength seqs [] = 0"
  by (simp add: matchLength_def find_None_iff [THEN iffD2])

lemma stripWith_Nil: "stripWith seqs [] = []"
  by (subst stripWith.simps) (simp add: matchLength_Nil)

lemma trim_Nil: "trim [] = []"
  by (simp add: trim_def stripWith_Nil)

text \<open>A no-break space (U+00A0) in front and a space behind are removed.\<close>

lemma trim_no_break_space: "trim (CHR 0xC2 # CHR 0xA0 # ''public '') = ''public''"
  by code_simp

text \<open>A string that starts with none of the first bytes is left as it is.\<close>

lemma matchLength_other:
  "(of_char c :: nat) \<notin> hd ` set seqs \<Longrightarrow> matchLength seqs (c # cs) = 0"
proof -
  assume a: "(of_char c :: nat) \<notin> hd ` set seqs"
  have "\<not> (w \<noteq> [] \<and> prefix w (map of_char (c # cs)))" if "w \<in> set seqs" for w
  proof (cases w)
    case Nil
    then show ?thesis by simp
  next
    case (Cons x xs)
    with that a show ?thesis by force
  qed
  then have "find (\<lambda>w. w \<noteq> [] \<and> prefix w (map of_char (c # cs))) seqs = None"
    unfolding find_None_iff by blast
  then show ?thesis
    by (simp add: matchLength_def)
qed

lemma stripWith_other:
  "(of_char c :: nat) \<notin> hd ` set seqs \<Longrightarrow> stripWith seqs (c # cs) = c # cs"
  by (subst stripWith.simps) (simp add: matchLength_other)

lemma whiteSpace_first_bytes:
  "hd ` set whiteSpaceSeqs = {9, 10, 11, 12, 13, 32, 194, 225, 226, 227, 239}"
  by (auto simp: whiteSpaceSeqs_def image_iff)

section \<open>Frame lemmas of the transition system\<close>

lemma frame_setConfig [simp]:
  "isMigrating (setConfig sd c st) = isMigrating st"
  "options (setConfig sd c st) = options st"
  "savedConnections (setConfig sd c st) = savedConnections st"
  "sourceTables (setConfig sd c st) = sourceTables st"
  by (cases sd; simp)+

lemma frame_setConnection [simp]:
  "isMigrating (setConnection sd c st) = isMigrating st"
  "options (setConnection sd c st) = options st"
  "savedConnections (setConnection sd c st) = savedConnections st"
  "sourceTables (setConnection sd c st) = sourceTables st"
  by (cases sd; simp)+

lemma frame_setTables [simp]:
  "isMigrating (setTables sd ts st) = isMigrating st"
  "options (setTables sd ts st) = options st"
  "savedConnections (setTables sd ts st) = savedConnections st"
  by (cases sd; simp)+

lemma frame_connectionEffect:
  "connectionEffect sd st = (st', cmds) \<Longrightarrow>
   isMigrating st' = isMigrating st \<and> options st' = options st
   \<and> savedConnections st' = savedConnections st
   \<and> filter isStart cmds = [] \<and> filter isSortCommand cmds = []"
  by (cases sd) (auto split: option.splits if_splits)

lemma appStep_migrating:
  "appStep e st = Some (st', cmds) \<Longrightarrow>
   length (filter isStart cmds) = (if e = MigrateClick then 1 else 0) \<and>
   isMigrating st' = (if e = MigrateClick then True else if isSettle e then False else isMigrating st)"
  apply (cases e)
  apply (auto simp: handleSwap_def handleAnalyze_def analyzeResolved_def analyzeRejected_def
      handleSort_def sortResolved_def sortRejected_def handleMigrate_def migrateResolved_def
      migrateRejected_def handleCancel_def onProgress_def connectResolved_def handleDisconnect_def
      actionButton_def canMigrate_def isConnected_def handleConnect_def Let_def
      dest: frame_connectionEffect split: if_splits option.splits)
  done

lemma step_appStep:
  assumes "step s e = Some (s', cmds)"
  shows "appStep e (app s) = Some (app s', cmds)"
    and "pendingMigrations s' =
           pendingMigrations s + length (filter isStart cmds) - (if isSettle e then 1 else 0)"
    and "isSettle e \<Longrightarrow> 0 < pendingMigrations s"
  using assms by (auto simp: step_def split: if_splits option.splits)

lemma reachable_run: "reachable saved s \<Longrightarrow> run s es = Some s' \<Longrightarrow> reachable saved s'"
proof (induction es arbitrary: s)
  case Nil
  then show ?case by simp
next
  case (Cons e es)
  then show ?case
    by (auto split: option.splits intro: reachable_step)
qed

section \<open>Saved connections keep distinct names\<close>

lemma save_names:
  "map saved_name (handleSaveConnection c prev) =
   filter (\<lambda>n. n \<noteq> saved_name c) (map saved_name prev) @ [saved_name c]"
  by (simp add: handleSaveConnection_def filter_map comp_def)

lemma delete_names:
  "map saved_name (handleDeleteConnection n prev) = filter (\<lambda>m. m \<noteq> n) (map saved_name prev)"
  by (simp add: handleDeleteConnection_def filter_map comp_def)

lemma save_distinct:
  "distinct (map saved_name prev) \<Longrightarrow> distinct (map saved_name (handleSaveConnection c prev))"
  by (simp add: save_names)

lemma delete_distinct:
  "distinct (map saved_name prev) \<Longrightarrow> distinct (map saved_name (handleDeleteConnection n prev))"
  by (simp add: delete_names)

lemma appStep_saved:
  "appStep e st = Some (st', cmds) \<Longrightarrow>
   savedConnections st' = savedConnections st
   \<or> (\<exists>c. savedConnections st' = handleSaveConnection c (savedConnections st))
   \<or> (\<exists>n. savedConnections st' = handleDeleteConnection n (savedConnections st))"
  by (cases e)
     (auto simp: handleSwap_def handleAnalyze_def analyzeResolved_def analyzeRejected_def
      handleSort_def sortResolved_def sortRejected_def handleMigrate_def migrateResolved_def
      migrateRejected_def onProgress_def connectResolved_def Let_def
      dest: frame_connectionEffect split: if_splits option.splits)

lemma saved_invariant:
  assumes "distinct (map saved_name saved)"
  shows "reachable saved s \<Longrightarrow> distinct (map saved_name (savedConnections (app s)))"
proof (induction rule: reachable.induct)
  case reachable_init
  show ?case using assms by (simp add: initialState_def)
next
  case (reachable_step s e s' cmds)
  from appStep_saved [OF step_appStep(1) [OF reachable_step.hyps(2)]] reachable_step.IH
  show ?case
    by (auto simp: save_distinct delete_distinct)
qed

text \<open>
  C8. From a list of saved connections with pairwise distinct names, saving and deleting
  give lists with pairwise distinct names. After saving, the only entry under the new
  name is the new one (at the end) and the entries under other names are those of before;
  deleting only removes entries, and none is left under the deleted name. So an
  application that starts with such a list never holds two saved connections of one name.
\<close>

theorem saved_connection_names_unique:
  assumes "distinct (map saved_name prev)"
  shows "distinct (map saved_name (handleSaveConnection c prev))
       \<and> distinct (map saved_name (handleDeleteConnection n prev))
       \<and> filter (\<lambda>d. saved_name d = saved_name c) (handleSaveConnection c prev) = [c]
       \<and> filter (\<lambda>d. saved_name d \<noteq> saved_name c) (handleSaveConnection c prev)
           = filter (\<lambda>d. saved_name d \<noteq> saved_name c) prev
       \<and> set (handleDeleteConnection n prev) \<subseteq> set prev
       \<and> n \<notin> set (map saved_name (handleDeleteConnection n prev))
       \<and> (\<forall>s. reachable prev s \<longrightarrow> distinct (map saved_name (savedConnections (app s))))"
proof -
  have "filter (\<lambda>d. saved_name d = saved_name c) (handleSaveConnection c prev) = [c]"
    by (simp add: handleSaveConnection_def)
  moreover have "filter (\<lambda>d. saved_name d \<noteq> saved_name c) (handleSaveConnection c prev)
      = filter (\<lambda>d. saved_name d \<noteq> saved_name c) prev"
    by (simp add: handleSaveConnection_def)
  moreover have "set (handleDeleteConnection n prev) \<subseteq> set prev"
    by (auto simp: handleDeleteConnection_def)
  moreover have "n \<notin> set (map saved_name (handleDeleteConnection n prev))"
    by (simp add: delete_names)
  ultimately show ?thesis
    using assms saved_invariant [OF assms] by (simp add: save_distinct delete_distinct)
qed

theorem saved_connection_names_unique_witness:
  "distinct (map saved_name exampleSaved)
   \<and> distinct (map saved_name (handleSaveConnection exampleNew exampleSaved))
   \<and> map saved_name (handleSaveConnection exampleNew exampleSaved) = [''dev'', ''prod'']
   \<and> filter (\<lambda>d. saved_name d = ''prod'') (handleSaveConnection exampleNew exampleSaved) = [exampleNew]
   \<and> map saved_name (handleDeleteConnection ''dev'' exampleSaved) = [''prod'']
   \<and> reachable exampleSaved (the (run (initialSystem exampleSaved) [SaveConnection exampleNew]))
   \<and> map saved_name (savedConnections (app (the (run (initialSystem exampleSaved)
          [SaveConnection exampleNew])))) = [''dev'', ''prod'']"
proof -
  have d: "distinct (map saved_name exampleSaved)"
    by (simp add: exampleSaved_def)
  have r: "run (initialSystem exampleSaved) [SaveConnection exampleNew]
      = Some \<lparr>app = (initialState exampleSaved)
                 \<lparr>savedConnections := handleSaveConnection exampleNew exampleSaved\<rparr>,
               pendingMigrations = 0\<rparr>"
    by (simp add: initialSystem_def step_def initialState_def)
  have "reachable exampleSaved (the (run (initialSystem exampleSaved) [SaveConnection exampleNew]))"
    using reachable_run [OF reachable_init r [unfolded initialSystem_def]] r by simp
  moreover have "map saved_name (savedConnections (app (the (run (initialSystem exampleSaved)
          [SaveConnection exampleNew])))) = [''dev'', ''prod'']"
    unfolding r by (simp add: handleSaveConnection_def exampleSaved_def exampleNew_def)
  moreover
  have n: "saved_name exampleNew = ''prod''"
    by (simp add: exampleNew_def)
  have "map saved_name (handleSaveConnection exampleNew exampleSaved) = [''dev'', ''prod'']"
    by (simp add: handleSaveConnection_def exampleSaved_def exampleNew_def)
  moreover have "map saved_name (handleDeleteConnection ''dev'' exampleSaved) = [''prod'']"
    by (simp add: handleDeleteConnection_def exampleSaved_def)
  ultimately show ?thesis
    using d n saved_connection_names_unique [OF d, of exampleNew "''dev''"] by simp
qed

section \<open>Swap\<close>

text \<open>
  C9. \<open>handleSwap\<close> exchanges the two connections, the two configs and the two table
  lists and empties the selection; swapping twice gives back the state it started from
  but for the selection, which is empty.
\<close>

theorem handleSwap_exchanges:
  "sourceConnection (handleSwap st) = targetConnection st
   \<and> targetConnection (handleSwap st) = sourceConnection st
   \<and> sourceConfig (handleSwap st) = targetConfig st
   \<and> targetConfig (handleSwap st) = sourceConfig st
   \<and> sourceTables (handleSwap st) = targetTables st
   \<and> targetTables (handleSwap st) = sourceTables st
   \<and> selectedTables (handleSwap st) = {}
   \<and> handleSwap (handleSwap st) = st\<lparr>selectedTables := {}\<rparr>"
  by (simp add: handleSwap_def)

section \<open>Progress\<close>

text \<open>
  C4. The listener stores the payload in place of whatever was stored, and what the
  progress area shows after an event is the bar of that payload alone, whatever the
  state and whatever events came before.
\<close>

theorem progress_is_snapshot:
  "onProgress p st = st\<lparr>progress := Some p\<rparr>
   \<and> progress (onProgress p st) = Some p
   \<and> progressArea (onProgress p st) = Some (ProgressBar (Some p))
   \<and> progressArea (foldl (\<lambda>s q. onProgress q s) st (ps @ [p])) = Some (ProgressBar (Some p))
   \<and> progressArea (onProgress p st) = progressArea (onProgress p st2)"
  by (simp add: onProgress_def progressArea_def)









section \<open>Connect\<close>

lemma parseInt_dot5: "parseInt ''.5'' = NaN"
  by (simp add: parseInt_def stripWith_other whiteSpace_first_bytes isRadixDigit_def
      digitValue_def)

text \<open>
  A port that is neither absent nor zero and yet is not sent unchanged: the text
  \<open>.5\<close> in the port field is parsed to \<open>NaN\<close>, and \<open>handleConnect\<close> sends 5432.
\<close>

theorem connect_port_counterexample:
  "port pastedPortConfig = Some NaN
   \<and> port pastedPortConfig \<noteq> None \<and> port pastedPortConfig \<noteq> Some (Num 0)
   \<and> handleConnect pastedPortConfig = ConnectDatabase (pastedPortConfig\<lparr>port := Some (Num 5432)\<rparr>)
   \<and> handleConnect pastedPortConfig \<noteq> ConnectDatabase pastedPortConfig"
  by (simp add: pastedPortConfig_def portChange_def parseInt_dot5 handleConnect_def
      finalConfig_def portOrDefault_def defaultConfig_def)

text \<open>
  C5 (amended). \<open>handleConnect\<close> sends the config with port 5432 when the port is
  absent, zero or \<open>NaN\<close>, and sends the config unchanged otherwise.
\<close>

theorem connect_port_default:
  "(port cfg \<in> {None, Some (Num 0), Some NaN} \<longrightarrow>
      handleConnect cfg = ConnectDatabase (cfg\<lparr>port := Some (Num 5432)\<rparr>))
   \<and> (port cfg \<notin> {None, Some (Num 0), Some NaN} \<longrightarrow>
      handleConnect cfg = ConnectDatabase cfg)"
proof (cases "port cfg")
  case None
  then show ?thesis by (simp add: handleConnect_def finalConfig_def portOrDefault_def)
next
  case (Some v)
  then show ?thesis
    by (cases v) (auto simp: handleConnect_def finalConfig_def portOrDefault_def)
qed

theorem connect_port_default_witness:
  "handleConnect (defaultConfig\<lparr>port := None\<rparr>) = ConnectDatabase defaultConfig
   \<and> handleConnect (defaultConfig\<lparr>port := Some (Num 0)\<rparr>) = ConnectDatabase defaultConfig
   \<and> handleConnect (defaultConfig\<lparr>port := Some NaN\<rparr>) = ConnectDatabase defaultConfig
   \<and> handleConnect (defaultConfig\<lparr>port := Some (Num 6543)\<rparr>)
       = ConnectDatabase (defaultConfig\<lparr>port := Some (Num 6543)\<rparr>)"
  using connect_port_default [of "defaultConfig\<lparr>port := None\<rparr>"]
    connect_port_default [of "defaultConfig\<lparr>port := Some (Num 0)\<rparr>"]
    connect_port_default [of "defaultConfig\<lparr>port := Some NaN\<rparr>"]
    connect_port_default [of "defaultConfig\<lparr>port := Some (Num 6543)\<rparr>"]
  by (simp add: defaultConfig_def)

section \<open>One migration at a time\<close>

lemma demo_pending: "map_option pendingMigrations (run (initialSystem []) demoTrace) = Some 1"
  by code_simp

lemma demo_migrating: "map_option (isMigrating \<circ> app) (run (initialSystem []) demoTrace) = Some True"
  by code_simp

lemma demo_batch: "map_option (batch_size \<circ> options \<circ> app) (run (initialSystem []) demoTrace) = Some (Num 50000)"
  by code_simp

lemma migrate_click_enabled:
  "appStep MigrateClick st = Some (st', cmds) \<Longrightarrow> \<not> isMigrating st \<and> canMigrate st"
  by (auto simp: actionButton_def split: if_splits)

lemma pending_matches_flag:
  "reachable saved s \<Longrightarrow> pendingMigrations s = (if isMigrating (app s) then 1 else 0)"
proof (induction rule: reachable.induct)
  case reachable_init
  show ?case by (simp add: initialState_def)
next
  case (reachable_step s e s' cmds)
  note st = step_appStep [OF reachable_step.hyps(2)]
  note mg = appStep_migrating [OF st(1)]
  show ?case
  proof (cases "e = MigrateClick")
    case True
    with st(1) have "\<not> isMigrating (app s)"
      using migrate_click_enabled by blast
    with True st(2) mg reachable_step.IH show ?thesis by simp
  next
    case False
    show ?thesis
    proof (cases "isSettle e")
      case True
      with st(3) reachable_step.IH have "pendingMigrations s = 1"
        by (simp split: if_splits)
      with True False st(2) mg show ?thesis by simp
    next
      case False
      with \<open>e \<noteq> MigrateClick\<close> st(2) mg reachable_step.IH show ?thesis by simp
    qed
  qed
qed

text \<open>
  C7. In every state the application can reach, at most one \<open>start_migration\<close> promise
  is pending, and one is pending exactly while \<open>isMigrating\<close> holds. While it holds the
  panel shows the Cancel button, no event invokes \<open>start_migration\<close>, and only the
  settling of the promise ends it. An event that invokes \<open>start_migration\<close> is a click
  on Migrate outside a migration; it invokes it once and sets \<open>isMigrating\<close>.
\<close>

theorem one_migration_in_flight:
  assumes "reachable saved s"
  shows "pendingMigrations s \<le> 1
       \<and> (isMigrating (app s) \<longleftrightarrow> pendingMigrations s = 1)
       \<and> (isMigrating (app s) \<longrightarrow>
            actionButton (isMigrating (app s)) (canMigrate (app s)) = CancelButton
            \<and> step s MigrateClick = None)
       \<and> (\<forall>e s' cmds. step s e = Some (s', cmds) \<and> isMigrating (app s) \<longrightarrow>
            filter isStart cmds = [] \<and> (isMigrating (app s') \<or> isSettle e))
       \<and> (\<forall>e s' cmds. step s e = Some (s', cmds) \<and> filter isStart cmds \<noteq> [] \<longrightarrow>
            e = MigrateClick \<and> \<not> isMigrating (app s) \<and> isMigrating (app s')
            \<and> length (filter isStart cmds) = 1 \<and> pendingMigrations s' = 1)"
proof -
  note p = pending_matches_flag [OF assms]
  have a: "pendingMigrations s \<le> 1" and b: "isMigrating (app s) \<longleftrightarrow> pendingMigrations s = 1"
    using p by (simp_all split: if_splits)
  have c: "isMigrating (app s) \<longrightarrow>
      actionButton (isMigrating (app s)) (canMigrate (app s)) = CancelButton
      \<and> step s MigrateClick = None"
    by (simp add: actionButton_def step_def)
  have d: "filter isStart cmds = [] \<and> (isMigrating (app s') \<or> isSettle e)"
    if "step s e = Some (s', cmds)" "isMigrating (app s)" for e s' cmds
  proof -
    note st = step_appStep [OF that(1)]
    note mg = appStep_migrating [OF st(1)]
    have "e \<noteq> MigrateClick"
      using st(1) that(2) migrate_click_enabled by blast
    with mg that(2) show ?thesis by (simp split: if_splits)
  qed
  have e: "e = MigrateClick \<and> \<not> isMigrating (app s) \<and> isMigrating (app s')
      \<and> length (filter isStart cmds) = 1 \<and> pendingMigrations s' = 1"
    if "step s e = Some (s', cmds)" "filter isStart cmds \<noteq> []" for e s' cmds
  proof -
    note st = step_appStep [OF that(1)]
    note mg = appStep_migrating [OF st(1)]
    have m: "e = MigrateClick"
      using mg that(2) by (auto split: if_splits)
    then have "\<not> isMigrating (app s)"
      using st(1) migrate_click_enabled by blast
    with m mg st(2) p show ?thesis by simp
  qed
  from a b c d e show ?thesis by blast
qed

theorem one_migration_in_flight_witness:
  "reachable [] (the (run (initialSystem []) demoTrace))
   \<and> run (initialSystem []) demoTrace \<noteq> None
   \<and> isMigrating (app (the (run (initialSystem []) demoTrace)))
   \<and> pendingMigrations (the (run (initialSystem []) demoTrace)) = 1
   \<and> step (the (run (initialSystem []) demoTrace)) MigrateClick = None"
proof -
  obtain s where s: "run (initialSystem []) demoTrace = Some s"
    using demo_pending by (cases "run (initialSystem []) demoTrace") auto
  have r: "reachable [] s"
    using reachable_run [OF reachable_init s [unfolded initialSystem_def]] .
  have m: "isMigrating (app s)"
    using demo_migrating s by simp
  show ?thesis
    using one_migration_in_flight [OF r] r m s by simp
qed

section \<open>Batch size\<close>

lemma parseInt_choices:
  "map parseInt batchSizeChoices = [Num 100, Num 1000, Num 10000, Num 50000]"
  by (simp add: batchSizeChoices_def parseInt_def stripWith_other whiteSpace_first_bytes
      isRadixDigit_def digitValue_def digitsValue_def numberOfInteger_exact)

lemma panelInput_batch:
  assumes "panelEnabled i" and "batch_size opts \<in> Num ` {100, 1000, 10000, 50000}"
  shows "batch_size (panelInput i opts) \<in> Num ` {100, 1000, 10000, 50000}"
proof (cases i)
  case (SelectBatch v)
  with assms(1) have "parseInt v \<in> set (map parseInt batchSizeChoices)"
    by simp
  then show ?thesis
    unfolding parseInt_choices using SelectBatch by auto
qed (use assms(2) in simp_all)

lemma appStep_options:
  "appStep e st = Some (st', cmds) \<Longrightarrow>
   options st' = options st \<or> (\<exists>i. e = PanelInput i \<and> panelEnabled i \<and> options st' = panelInput i (options st))"
  by (cases e)
     (auto simp: handleSwap_def handleAnalyze_def analyzeResolved_def analyzeRejected_def
      handleSort_def sortResolved_def sortRejected_def handleMigrate_def migrateResolved_def
      migrateRejected_def onProgress_def connectResolved_def Let_def
      dest: frame_connectionEffect split: if_splits option.splits)

lemma appStep_start:
  "appStep e st = Some (st', cmds) \<Longrightarrow> StartMigration r \<in> set cmds \<Longrightarrow>
   e = MigrateClick \<and> handleMigrate st = (st', cmds) \<and> cmds = [StartMigration r]"
  apply (cases e)
  apply (auto simp: handleAnalyze_def handleSort_def handleMigrate_def migrateResolved_def
      handleCancel_def handleDisconnect_def handleConnect_def
      split: if_splits option.splits)
  apply (rename_tac sd, case_tac sd; auto split: option.splits if_splits)+
  done

lemma batch_invariant:
  "reachable saved s \<Longrightarrow> batch_size (options (app s)) \<in> Num ` {100, 1000, 10000, 50000}"
proof (induction rule: reachable.induct)
  case reachable_init
  show ?case by (simp add: initialState_def defaultOptions_def)
next
  case (reachable_step s e s' cmds)
  from appStep_options [OF step_appStep(1) [OF reachable_step.hyps(2)]]
  consider "options (app s') = options (app s)"
    | i where "panelEnabled i" "options (app s') = panelInput i (options (app s))"
    by blast
  then show ?case
  proof cases
    case 1
    with reachable_step.IH show ?thesis by simp
  next
    case 2
    with panelInput_batch [OF 2(1) reachable_step.IH] show ?thesis by simp
  qed
qed

lemma handleMigrate_request:
  "handleMigrate st = (st', cmds) \<Longrightarrow> StartMigration r \<in> set cmds \<Longrightarrow>
   req_options r = options st \<and> tables r = selectedList st \<and> cmds = [StartMigration r]
   \<and> sourceTables st' = sourceTables st \<and> isMigrating st'"
  by (auto simp: handleMigrate_def split: option.splits if_splits)

text \<open>
  C3. The values of the batch-size select are 100, 1000, 10000 and 50000, the default
  options carry 1000, and in every state the application can reach the batch size is
  one of the four; so every \<open>start_migration\<close> request carries a batch size between 1
  and 100000.
\<close>

theorem batch_size_in_range:
  assumes "reachable saved s"
  shows "map parseInt batchSizeChoices = [Num 100, Num 1000, Num 10000, Num 50000]
       \<and> batch_size defaultOptions = Num 1000
       \<and> batch_size (options (app s)) \<in> Num ` {100, 1000, 10000, 50000}
       \<and> (\<forall>e s' cmds r. step s e = Some (s', cmds) \<and> StartMigration r \<in> set cmds \<longrightarrow>
            (\<exists>n. batch_size (req_options r) = Num n \<and> 1 \<le> n \<and> n \<le> 100000))"
proof -
  note b = batch_invariant [OF assms]
  have "\<exists>n. batch_size (req_options r) = Num n \<and> 1 \<le> n \<and> n \<le> 100000"
    if "step s e = Some (s', cmds)" "StartMigration r \<in> set cmds" for e s' cmds r
  proof -
    from appStep_start [OF step_appStep(1) [OF that(1)] that(2)]
    have "handleMigrate (app s) = (app s', cmds)" by simp
    from handleMigrate_request [OF this that(2)] have "req_options r = options (app s)"
      by simp
    with b show ?thesis by auto
  qed
  with b show ?thesis
    by (simp add: parseInt_choices defaultOptions_def) blast
qed

lemma demo_reachable: "\<exists>s. run (initialSystem []) demoTrace = Some s \<and> reachable [] s"
proof -
  obtain s where s: "run (initialSystem []) demoTrace = Some s"
    using demo_pending by (cases "run (initialSystem []) demoTrace") auto
  with reachable_run [OF reachable_init s [unfolded initialSystem_def]] show ?thesis
    by blast
qed

theorem batch_size_in_range_witness:
  "reachable [] (the (run (initialSystem []) demoTrace))
   \<and> batch_size (options (app (the (run (initialSystem []) demoTrace)))) = Num 50000
   \<and> Num 50000 \<in> Num ` {100, 1000, 10000, 50000}"
proof -
  obtain s where s: "run (initialSystem []) demoTrace = Some s" "reachable [] s"
    using demo_reachable by blast
  show ?thesis
    using batch_size_in_range [OF s(2)] s demo_batch by simp
qed

section \<open>The tables of a migration request\<close>

text \<open>
  C1. The tables of the request that \<open>handleMigrate\<close> sends are the selected tables of
  \<open>sourceTables\<close> in the order of \<open>sourceTables\<close>: a subsequence of it, each table as
  often as it is listed and selected. \<open>handleMigrate\<close> leaves \<open>sourceTables\<close> as it is.
\<close>

theorem migrate_tables_keep_order:
  assumes "handleMigrate st = (st', cmds)" and "StartMigration r \<in> set cmds"
  shows "tables r = map toRef (filter (\<lambda>t. tableKey t \<in> selectedTables st) (sourceTables st))
       \<and> subseq (tables r) (map toRef (sourceTables st))
       \<and> cmds = [StartMigration r]
       \<and> sourceTables st' = sourceTables st"
proof -
  from handleMigrate_request [OF assms]
  have t: "tables r = selectedList st" and c: "cmds = [StartMigration r]"
    and f: "sourceTables st' = sourceTables st"
    by simp_all
  have "subseq (selectedList st) (map toRef (sourceTables st))"
    unfolding selectedList_def by (intro subseq_map subseq_filter_left)
  with t c f show ?thesis
    by (simp add: selectedList_def)
qed

lemma demo_handleMigrate:
  "handleMigrate demoState =
     (demoState\<lparr>isMigrating := True, progress := None, lastResult := None\<rparr>,
      [StartMigration demoRequest])"
  by (simp add: handleMigrate_def demoState_def initialState_def demoSource_def demoTarget_def
      demoSelection_def demoRequest_def selectedList_def demoTables_def demoTable_def
      tableKey_def toRef_def trim_Nil)

theorem migrate_tables_keep_order_witness:
  "handleMigrate demoState =
     (demoState\<lparr>isMigrating := True, progress := None, lastResult := None\<rparr>,
      [StartMigration demoRequest])
   \<and> map name (sourceTables demoState) = [''orders'', ''audit'', ''users'']
   \<and> map ref_name (tables demoRequest) = [''orders'', ''users'']
   \<and> subseq (tables demoRequest) (map toRef (sourceTables demoState))"
proof -
  have m: "StartMigration demoRequest \<in> set [StartMigration demoRequest]"
    by simp
  have "map name (sourceTables demoState) = [''orders'', ''audit'', ''users'']"
    by (simp add: demoState_def demoTables_def demoTable_def)
  moreover have "map ref_name (tables demoRequest) = [''orders'', ''users'']"
    by (simp add: demoRequest_def)
  moreover have "subseq (tables demoRequest) (map toRef (sourceTables demoState))"
    using migrate_tables_keep_order [OF demo_handleMigrate m] by blast
  ultimately show ?thesis
    using demo_handleMigrate by blast
qed

section \<open>The result of a migration\<close>

lemma join_sublist: "e \<in> set xs \<Longrightarrow> sublist e (join sep xs)"
proof (induction sep xs rule: join.induct)
  case (1 sep)
  then show ?case by simp
next
  case (2 sep x)
  then show ?case by simp
next
  case (3 sep x y ys)
  show ?case
  proof (cases "e = x")
    case True
    then show ?thesis by (simp add: sublist_append_rightI)
  next
    case False
    with 3 have "sublist e (join sep (y # ys))" by simp
    then obtain ps ss where "join sep (y # ys) = ps @ e @ ss"
      by (auto simp: sublist_def)
    then have "join sep (x # y # ys) = (x @ sep @ ps) @ e @ ss" by simp
    then show ?thesis unfolding sublist_def by blast
  qed
qed

text \<open>
  C2. When \<open>start_migration\<close> rejects, the stored result has \<open>success = false\<close> and the
  failure message among its errors, and the banner is the error variant with that
  message. For every stored result with \<open>success = false\<close> the banner, when shown, is the
  error variant whose text contains every entry of \<open>errors\<close>; the success variant is
  shown only for a stored result with \<open>success = true\<close>, so never after a rejection.
\<close>

theorem rejected_migration_shows_errors:
  "(\<exists>r. lastResult (migrateRejected err st) = Some r \<and> \<not> success r \<and> err \<in> set (errors r))
   \<and> \<not> isMigrating (migrateRejected err st)
   \<and> resultBanner (migrateRejected err st) = Some (ErrorBanner (''Migration failed: '' @ err))
   \<and> (lastResult st = Some r \<and> \<not> isMigrating st \<and> \<not> success r \<longrightarrow>
        resultBanner st = Some (ErrorBanner (''Migration failed: '' @ join '', '' (errors r)))
        \<and> (\<forall>e \<in> set (errors r). sublist e (''Migration failed: '' @ join '', '' (errors r))))
   \<and> (resultBanner st = Some (SuccessBanner a b c) \<longrightarrow>
        (\<exists>r'. lastResult st = Some r' \<and> success r' \<and> \<not> isMigrating st))"
proof -
  have 1: "\<exists>r. lastResult (migrateRejected err st) = Some r \<and> \<not> success r \<and> err \<in> set (errors r)"
    by (simp add: migrateRejected_def)
  have 2: "\<not> isMigrating (migrateRejected err st)"
    by (simp add: migrateRejected_def)
  have 3: "resultBanner (migrateRejected err st) = Some (ErrorBanner (''Migration failed: '' @ err))"
    by (simp add: migrateRejected_def resultBanner_def)
  have 4: "sublist e (''Migration failed: '' @ join '', '' (errors r))" if "e \<in> set (errors r)" for e
    using join_sublist [OF that, of "'', ''"] sublist_append_leftI sublist_order.order.trans
    by blast
  have 5: "resultBanner st = Some (SuccessBanner a b c) \<longrightarrow>
      (\<exists>r'. lastResult st = Some r' \<and> success r' \<and> \<not> isMigrating st)"
    by (auto simp: resultBanner_def split: option.splits if_splits)
  from 1 2 3 4 5 show ?thesis
    by (auto simp: resultBanner_def)
qed

theorem rejected_migration_shows_errors_witness:
  "resultBanner (migrateRejected ''connection closed'' demoState)
     = Some (ErrorBanner ''Migration failed: connection closed'')
   \<and> resultBanner failedState = Some (ErrorBanner ''Migration failed: orders: denied, users: timeout'')
   \<and> sublist ''users: timeout'' ''Migration failed: orders: denied, users: timeout''
   \<and> resultBanner succeededState = Some (SuccessBanner 2 20 1200)
   \<and> map_option success (lastResult succeededState) = Some True"
proof -
  have f: "lastResult failedState = Some \<lparr>success = False, tables_migrated = 1, result_total_rows = 10,
      errors = [''orders: denied'', ''users: timeout''], elapsed_ms = 1200\<rparr>"
      "\<not> isMigrating failedState"
    by (simp_all add: failedState_def demoState_def initialState_def)
  have g: "resultBanner succeededState = Some (SuccessBanner 2 20 1200)"
    by (simp add: succeededState_def demoState_def initialState_def resultBanner_def)
  show ?thesis
    using rejected_migration_shows_errors [of "''connection closed''" demoState
        "\<lparr>success = False, tables_migrated = 1, result_total_rows = 10,
          errors = [''orders: denied'', ''users: timeout''], elapsed_ms = 1200\<rparr>" 2 20 1200]
      rejected_migration_shows_errors [of "''x''" failedState
        "\<lparr>success = False, tables_migrated = 1, result_total_rows = 10,
          errors = [''orders: denied'', ''users: timeout''], elapsed_ms = 1200\<rparr>" 2 20 1200]
      rejected_migration_shows_errors [of "''x''" succeededState
        "\<lparr>success = False, tables_migrated = 1, result_total_rows = 10,
          errors = [''orders: denied'', ''users: timeout''], elapsed_ms = 1200\<rparr>" 2 20 1200]
      f g
    by auto
qed

section \<open>Sorting by the returned order\<close>

lemma insertBy_insort:
  "insertBy (compareTables m) x ys = insort_key (sortIndex m) x ys"
  by (induction ys) (auto simp: compareTables_def Let_def)

lemma arraySort_sort_key:
  "arraySort (compareTables m) xs = sort_key (sortIndex m) xs"
  by (induction xs) (simp_all add: arraySort_def insertBy_insort)

lemma foldl_set_other:
  "k \<notin> set (map refKey rs) \<Longrightarrow>
   foldl (\<lambda>m (t, i). m(refKey t \<mapsto> i)) m0 (zip rs js) k = m0 k"
proof (induction rs arbitrary: m0 js)
  case Nil
  then show ?case by simp
next
  case (Cons r rs)
  then show ?case by (cases js) simp_all
qed

lemma foldl_set_nth:
  "distinct (map refKey rs) \<Longrightarrow> length js = length rs \<Longrightarrow> i < length rs \<Longrightarrow>
   foldl (\<lambda>m (t, i). m(refKey t \<mapsto> i)) m0 (zip rs js) (refKey (rs ! i)) = Some (js ! i)"
proof (induction rs arbitrary: m0 js i)
  case Nil
  then show ?case by simp
next
  case (Cons r rs)
  from Cons.prems(2) obtain j js' where js: "js = j # js'" "length js' = length rs"
    by (cases js) auto
  show ?case
  proof (cases i)
    case 0
    from Cons.prems(1) have "refKey r \<notin> set (map refKey rs)" by simp
    from foldl_set_other [OF this, of "m0(refKey r \<mapsto> j)" js'] 0 js
    show ?thesis by (simp add: fun_upd_def)
  next
    case (Suc n)
    with Cons.prems have "n < length rs" "distinct (map refKey rs)" by simp_all
    from Cons.IH [OF this(2) js(2) this(1), of "m0(refKey r \<mapsto> j)"] Suc js
    show ?thesis by (simp add: fun_upd_def)
  qed
qed

lemma sortedMap_nth:
  "distinct (map refKey rs) \<Longrightarrow> i < length rs \<Longrightarrow> sortedMap rs (refKey (rs ! i)) = Some i"
  using foldl_set_nth [of rs "[0..<length rs]" i Map.empty] by (simp add: sortedMap_def)

lemma sortedMap_other:
  "k \<notin> set (map refKey rs) \<Longrightarrow> sortedMap rs k = None"
  using foldl_set_other [of k rs Map.empty "[0..<length rs]"] by (simp add: sortedMap_def)

lemma sortIndex_listed:
  assumes "distinct (map refKey rs)" and "i < length rs" and "tableKey t = refKey (rs ! i)"
  shows "sortIndex (sortedMap rs) t = int i"
  using sortedMap_nth [OF assms(1,2)] assms(3) by (simp add: sortIndex_def)

lemma sortIndex_unlisted:
  "tableKey t \<notin> set (map refKey rs) \<Longrightarrow> sortIndex (sortedMap rs) t = MAX_SAFE_INTEGER"
  by (simp add: sortIndex_def sortedMap_other)

subsection \<open>Blocks of a list by key\<close>

lemma blocks_member:
  "t \<in> set (concat (map (\<lambda>k. filter (\<lambda>t. g t = k) xs) ks)) \<longleftrightarrow> t \<in> set xs \<and> g t \<in> set ks"
  by auto

lemma mset_blocks:
  "distinct ks \<Longrightarrow>
   mset (concat (map (\<lambda>k. filter (\<lambda>t. g t = k) xs) ks)) = filter_mset (\<lambda>t. g t \<in> set ks) (mset xs)"
proof (induction ks)
  case Nil
  then show ?case by simp
next
  case (Cons k ks)
  then have "filter_mset (\<lambda>t. g t = k) (mset xs) + filter_mset (\<lambda>t. g t \<in> set ks) (mset xs)
      = filter_mset (\<lambda>t. g t \<in> set (k # ks)) (mset xs)"
    by (auto simp: multiset_eq_iff)
  with Cons show ?case by simp
qed

lemma filter_blocks_other:
  "k0 \<notin> set ks \<Longrightarrow> filter (\<lambda>t. g t = k0) (concat (map (\<lambda>k. filter (\<lambda>t. g t = k) xs) ks)) = []"
  by (auto simp: filter_empty_conv)

lemma filter_blocks_same:
  "distinct ks \<Longrightarrow> k0 \<in> set ks \<Longrightarrow>
   filter (\<lambda>t. g t = k0) (concat (map (\<lambda>k. filter (\<lambda>t. g t = k) xs) ks)) = filter (\<lambda>t. g t = k0) xs"
proof (induction ks)
  case Nil
  then show ?case by simp
next
  case (Cons k ks)
  show ?case
  proof (cases "k = k0")
    case True
    with Cons.prems have "k0 \<notin> set ks" by simp
    from filter_blocks_other [OF this, of g xs] True show ?thesis by simp
  next
    case False
    then have "filter (\<lambda>t. g t = k0) (filter (\<lambda>t. g t = k) xs) = []"
      by (auto simp: filter_empty_conv)
    with False Cons show ?thesis by simp
  qed
qed

lemma sorted_const: "(\<And>x. x \<in> set xs \<Longrightarrow> f x = c) \<Longrightarrow> sorted (map f xs)"
  by (induction xs) auto

lemma sorted_blocks:
  fixes pos :: "'k \<Rightarrow> int"
  assumes "sorted_wrt (\<lambda>a b. pos a \<le> pos b) ks"
  shows "sorted (map (\<lambda>t. pos (g t)) (concat (map (\<lambda>k. filter (\<lambda>t. g t = k) xs) ks)))"
  using assms
proof (induction ks)
  case Nil
  then show ?case by simp
next
  case (Cons k ks)
  have a: "sorted (map (\<lambda>t. pos (g t)) (filter (\<lambda>t. g t = k) xs))"
    by (rule sorted_const [where c = "pos k"]) simp
  from Cons have b: "sorted (map (\<lambda>t. pos (g t)) (concat (map (\<lambda>k. filter (\<lambda>t. g t = k) xs) ks)))"
    by simp
  from Cons.prems have c: "\<And>k'. k' \<in> set ks \<Longrightarrow> pos k \<le> pos k'"
    by simp
  show ?case
    using a b c by (auto simp: sorted_append)
qed

subsection \<open>The order after \<open>handleSort\<close>\<close>

lemma listed_index:
  assumes "k \<in> set (map refKey rs)"
  obtains i where "i < length rs" "k = refKey (rs ! i)"
  using assms by (auto simp: in_set_conv_nth)

lemma sortIndex_eq_iff:
  assumes d: "distinct (map refKey rs)" and b: "int (length rs) \<le> MAX_SAFE_INTEGER"
  shows "sortIndex (sortedMap rs) a = sortIndex (sortedMap rs) x \<longleftrightarrow>
         (if tableKey a \<in> set (map refKey rs) then tableKey x = tableKey a
          else tableKey x \<notin> set (map refKey rs))"
proof (cases "tableKey a \<in> set (map refKey rs)")
  case True
  then obtain i where i: "i < length rs" "tableKey a = refKey (rs ! i)"
    by (rule listed_index)
  have fa: "sortIndex (sortedMap rs) a = int i"
    by (rule sortIndex_listed [OF d i])
  show ?thesis
  proof (cases "tableKey x \<in> set (map refKey rs)")
    case True
    then obtain j where j: "j < length rs" "tableKey x = refKey (rs ! j)"
      by (rule listed_index)
    have fx: "sortIndex (sortedMap rs) x = int j"
      by (rule sortIndex_listed [OF d j])
    have "refKey (rs ! i) = refKey (rs ! j) \<longleftrightarrow> i = j"
      using nth_eq_iff_index_eq [OF d, of i j] i(1) j(1) by simp
    with i j fa fx \<open>tableKey a \<in> set (map refKey rs)\<close> show ?thesis by auto
  next
    case False
    then have "sortIndex (sortedMap rs) x = MAX_SAFE_INTEGER"
      by (rule sortIndex_unlisted)
    with fa i(1) b False \<open>tableKey a \<in> set (map refKey rs)\<close> show ?thesis by auto
  qed
next
  case False
  then have fa: "sortIndex (sortedMap rs) a = MAX_SAFE_INTEGER"
    by (rule sortIndex_unlisted)
  show ?thesis
  proof (cases "tableKey x \<in> set (map refKey rs)")
    case True
    then obtain j where j: "j < length rs" "tableKey x = refKey (rs ! j)"
      by (rule listed_index)
    have "sortIndex (sortedMap rs) x = int j"
      by (rule sortIndex_listed [OF d j])
    with fa j(1) b False True show ?thesis by auto
  next
    case F: False
    then have "sortIndex (sortedMap rs) x = MAX_SAFE_INTEGER"
      by (rule sortIndex_unlisted)
    with fa False F show ?thesis by simp
  qed
qed

lemma keys_ascending:
  assumes d: "distinct (map refKey rs)"
  shows "sorted_wrt (\<lambda>a b. (case sortedMap rs a of Some i \<Rightarrow> int i | None \<Rightarrow> MAX_SAFE_INTEGER)
                         \<le> (case sortedMap rs b of Some i \<Rightarrow> int i | None \<Rightarrow> MAX_SAFE_INTEGER))
           (map refKey rs)"
proof -
  have "(case sortedMap rs (map refKey rs ! i) of Some i \<Rightarrow> int i | None \<Rightarrow> MAX_SAFE_INTEGER)
      \<le> (case sortedMap rs (map refKey rs ! j) of Some i \<Rightarrow> int i | None \<Rightarrow> MAX_SAFE_INTEGER)"
    if "i < j" "j < length (map refKey rs)" for i j
  proof -
    from that have "i < length rs" "j < length rs" by simp_all
    with sortedMap_nth [OF d] that(1) show ?thesis by simp
  qed
  then show ?thesis
    unfolding sorted_wrt_iff_nth_less by blast
qed

lemma sort_by_returned_order:
  assumes d: "distinct (map refKey rs)" and b: "int (length rs) \<le> MAX_SAFE_INTEGER"
  shows "sort_key (sortIndex (sortedMap rs)) prev =
           concat (map (\<lambda>k. filter (\<lambda>t. tableKey t = k) prev) (map refKey rs))
           @ filter (\<lambda>t. tableKey t \<notin> set (map refKey rs)) prev"
    (is "sort_key ?f prev = ?blocks @ ?rest")
proof (rule properties_for_sort_key)
  have "mset ?blocks = filter_mset (\<lambda>t. tableKey t \<in> set (map refKey rs)) (mset prev)"
    by (rule mset_blocks [OF d])
  then show "mset (?blocks @ ?rest) = mset prev"
    by (simp add: multiset_partition [symmetric])
next
  fix a
  assume "a \<in> set (?blocks @ ?rest)"
  show "filter (\<lambda>x. ?f a = ?f x) (?blocks @ ?rest) = filter (\<lambda>x. ?f a = ?f x) prev"
  proof (cases "tableKey a \<in> set (map refKey rs)")
    case True
    then have e: "(\<lambda>x. ?f a = ?f x) = (\<lambda>x. tableKey x = tableKey a)"
      by (simp add: sortIndex_eq_iff [OF d b])
    have "filter (\<lambda>x. tableKey x = tableKey a) ?rest = []"
      using True by (auto simp: filter_empty_conv)
    with filter_blocks_same [OF d True, of tableKey prev] show ?thesis
      unfolding e by simp
  next
    case False
    then have e: "(\<lambda>x. ?f a = ?f x) = (\<lambda>x. tableKey x \<notin> set (map refKey rs))"
      by (simp add: sortIndex_eq_iff [OF d b])
    have "filter (\<lambda>x. tableKey x \<notin> set (map refKey rs)) ?blocks = []"
      unfolding filter_empty_conv blocks_member by simp
    then show ?thesis
      unfolding e by simp
  qed
next
  have f: "?f = (\<lambda>t. (case sortedMap rs (tableKey t) of Some i \<Rightarrow> int i | None \<Rightarrow> MAX_SAFE_INTEGER))"
    by (simp add: fun_eq_iff sortIndex_def)
  have 1: "sorted (map ?f ?blocks)"
    unfolding f by (rule sorted_blocks [OF keys_ascending [OF d]])
  have 2: "sorted (map ?f ?rest)"
    by (rule sorted_const [where c = MAX_SAFE_INTEGER]) (simp add: sortIndex_unlisted)
  have 3: "?f x \<le> MAX_SAFE_INTEGER" if "x \<in> set ?blocks" for x
  proof -
    from that have "tableKey x \<in> set (map refKey rs)"
      unfolding blocks_member by simp
    then obtain i where i: "i < length rs" "tableKey x = refKey (rs ! i)"
      by (rule listed_index)
    from sortIndex_listed [OF d i] i(1) b show ?thesis by simp
  qed
  have 4: "?f y = MAX_SAFE_INTEGER" if "y \<in> set ?rest" for y
    using that by (simp add: sortIndex_unlisted)
  show "sorted (map ?f (?blocks @ ?rest))"
    using 1 2 3 4 by (auto simp: sorted_append simp del: set_concat)
qed

lemma sortResolved_tables:
  assumes "distinct (map refKey rs)" and "int (length rs) \<le> MAX_SAFE_INTEGER"
  shows "sourceTables (sortResolved rs st) =
           concat (map (\<lambda>k. filter (\<lambda>t. tableKey t = k) (sourceTables st)) (map refKey rs))
           @ filter (\<lambda>t. tableKey t \<notin> set (map refKey rs)) (sourceTables st)"
  by (simp add: sortResolved_def arraySort_sort_key sort_by_returned_order [OF assms])

lemma refKey_toRef [simp]: "refKey (toRef t) = tableKey t"
  by (simp add: refKey_def toRef_def tableKey_def)

lemma filter_unique:
  "distinct (map f xs) \<Longrightarrow> x \<in> set xs \<Longrightarrow> filter (\<lambda>y. f y = f x) xs = [x]"
proof (induction xs)
  case Nil
  then show ?case by simp
next
  case (Cons a xs)
  show ?case
  proof (cases "x = a")
    case True
    with Cons.prems(1) have "filter (\<lambda>y. f y = f a) xs = []"
      by (auto simp: filter_empty_conv image_iff)
    with True show ?thesis by simp
  next
    case False
    with Cons.prems have "x \<in> set xs" "f a \<noteq> f x" by auto
    with Cons show ?thesis by simp
  qed
qed

lemma concat_singletons: "(\<And>r. r \<in> set rs \<Longrightarrow> h r = [r]) \<Longrightarrow> concat (map h rs) = rs"
  by (induction rs) simp_all

text \<open>
  After a sort that returned the selected tables in some order, the selected tables
  stand in \<open>sourceTables\<close> in that order.
\<close>

lemma selectedList_after_sort:
  assumes d: "distinct (map refKey rs)" and b: "int (length rs) \<le> MAX_SAFE_INTEGER"
    and p: "mset rs = mset (selectedList st)"
  shows "selectedList (sortResolved rs st) = rs"
proof -
  define src where "src = sourceTables st"
  define sel where "sel = selectedTables st"
  define chosen where "chosen = filter (\<lambda>t. tableKey t \<in> sel) src"
  have p': "mset rs = mset (map toRef chosen)"
    using p by (simp add: selectedList_def chosen_def src_def sel_def)
  then have "mset (map refKey rs) = mset (map refKey (map toRef chosen))"
    by (metis mset_map)
  then have km: "mset (map refKey rs) = mset (map tableKey chosen)"
    by (simp add: comp_def)
  have dc: "distinct (map tableKey chosen)"
    using d km by (metis mset_eq_imp_distinct_iff)
  have ks: "set (map refKey rs) = tableKey ` set chosen"
    using km by (metis mset_eq_setD set_map)
  have in_sel: "k \<in> sel" if "k \<in> set (map refKey rs)" for k
    using that ks by (auto simp: chosen_def)
  have listed: "tableKey t \<in> set (map refKey rs)" if "t \<in> set src" "tableKey t \<in> sel" for t
    using that ks by (auto simp: chosen_def)
  let ?blocks = "concat (map (\<lambda>k. filter (\<lambda>t. tableKey t = k) src) (map refKey rs))"
  let ?rest = "filter (\<lambda>t. tableKey t \<notin> set (map refKey rs)) src"
  have st': "sourceTables (sortResolved rs st) = ?blocks @ ?rest"
    unfolding src_def by (rule sortResolved_tables [OF d b])
  have sel': "selectedTables (sortResolved rs st) = sel"
    by (simp add: sortResolved_def sel_def)
  have 1: "filter (\<lambda>t. tableKey t \<in> sel) ?rest = []"
    using listed by (auto simp: filter_empty_conv)
  have 2: "filter (\<lambda>t. tableKey t \<in> sel) ?blocks = ?blocks"
    unfolding filter_id_conv using in_sel blocks_member [of _ tableKey src "map refKey rs"]
    by blast
  have 3: "map toRef (filter (\<lambda>t. tableKey t = refKey r) src) = [r]" if "r \<in> set rs" for r
  proof -
    from that p' have "r \<in> set (map toRef chosen)"
      by (metis mset_eq_setD)
    then obtain t0 where t0: "t0 \<in> set chosen" "r = toRef t0" by auto
    have "refKey r \<in> sel"
      using that in_sel by simp
    then have "filter (\<lambda>t. tableKey t = refKey r) src = filter (\<lambda>t. tableKey t = refKey r) chosen"
      unfolding chosen_def filter_filter by (rule_tac filter_cong) auto
    also have "\<dots> = [t0]"
      using filter_unique [OF dc t0(1)] t0(2) by simp
    finally show ?thesis using t0(2) by simp
  qed
  have "selectedList (sortResolved rs st) = map toRef ?blocks"
    unfolding selectedList_def st' sel' using 1 2 by simp
  also have "\<dots> = concat (map (\<lambda>r. map toRef (filter (\<lambda>t. tableKey t = refKey r) src)) rs)"
    by (simp add: map_concat comp_def)
  also have "\<dots> = rs"
    by (rule concat_singletons) (rule 3)
  finally show ?thesis .
qed

lemma appStep_sort:
  "appStep e st = Some (st', cmds) \<Longrightarrow> filter isSortCommand cmds \<noteq> [] \<Longrightarrow>
   e = SortClick \<and> handleSort st = (st', cmds)"
  by (cases e)
     (auto simp: handleAnalyze_def handleMigrate_def migrateResolved_def
      handleCancel_def handleDisconnect_def handleConnect_def
      dest: frame_connectionEffect split: if_splits option.splits)

lemma handleSort_command:
  "handleSort st = (st', cmds) \<Longrightarrow> filter isSortCommand cmds \<noteq> [] \<Longrightarrow>
   \<exists>c. sourceConnection st = Some c \<and> selectedTables st \<noteq> {}
       \<and> cmds = [SortTablesByDependency (conn_id c) (selectedList st)]
       \<and> st' = st\<lparr>isSorting := True\<rparr>"
  by (auto simp: handleSort_def split: option.splits if_splits)

lemma handleMigrate_no_sort:
  "filter isSortCommand (snd (handleMigrate st)) = []
   \<and> sourceTables (fst (handleMigrate st)) = sourceTables st"
  by (auto simp: handleMigrate_def split: option.splits)

lemma sortResolved_mset:
  "mset (sourceTables (sortResolved refs st)) = mset (sourceTables st)"
  by (simp add: sortResolved_def arraySort_sort_key)

lemma collision_selected:
  "selectedList collisionState =
     [\<lparr>ref_schema = ''a.b'', ref_name = ''c''\<rparr>, \<lparr>ref_schema = ''a'', ref_name = ''b.c''\<rparr>,
      \<lparr>ref_schema = ''a'', ref_name = ''z''\<rparr>]"
  by (simp add: selectedList_def collisionState_def tableOf_def tableKey_def toRef_def)

lemma collision_sorted:
  "sourceTables (sortResolved collisionOrder collisionState) =
     [tableOf ''a'' ''z'', tableOf ''a.b'' ''c'', tableOf ''a'' ''b.c'']"
  by (simp add: sortResolved_def arraySort_def compareTables_def sortIndex_def sortedMap_def
      collisionOrder_def collisionState_def tableOf_def tableKey_def refKey_def
      MAX_SAFE_INTEGER_def upt_rec)

text \<open>
  A returned order that \<open>sourceTables\<close> does not take: the tables \<open>(a.b, c)\<close> and
  \<open>(a, b.c)\<close> share the key \<open>a.b.c\<close>. The call returns the three selected tables as
  \<open>(a, b.c)\<close>, \<open>(a, z)\<close>, \<open>(a.b, c)\<close>; afterwards they stand as \<open>(a, z)\<close>, \<open>(a.b, c)\<close>,
  \<open>(a, b.c)\<close>.
\<close>

theorem dependency_sort_counterexample:
  "mset collisionOrder = mset (selectedList collisionState)
   \<and> distinct collisionOrder
   \<and> map toRef (sourceTables (sortResolved collisionOrder collisionState)) =
       [\<lparr>ref_schema = ''a'', ref_name = ''z''\<rparr>, \<lparr>ref_schema = ''a.b'', ref_name = ''c''\<rparr>,
        \<lparr>ref_schema = ''a'', ref_name = ''b.c''\<rparr>]
   \<and> map toRef (sourceTables (sortResolved collisionOrder collisionState)) \<noteq> collisionOrder
   \<and> selectedList (sortResolved collisionOrder collisionState) \<noteq> collisionOrder"
proof -
  have m: "mset collisionOrder = mset (selectedList collisionState)"
    unfolding collision_selected by (simp add: collisionOrder_def)
  have d: "distinct collisionOrder"
    by (simp add: collisionOrder_def)
  have t: "map toRef (sourceTables (sortResolved collisionOrder collisionState)) =
       [\<lparr>ref_schema = ''a'', ref_name = ''z''\<rparr>, \<lparr>ref_schema = ''a.b'', ref_name = ''c''\<rparr>,
        \<lparr>ref_schema = ''a'', ref_name = ''b.c''\<rparr>]"
    unfolding collision_sorted by (simp add: tableOf_def toRef_def)
  have s: "selectedList (sortResolved collisionOrder collisionState) =
       [\<lparr>ref_schema = ''a'', ref_name = ''z''\<rparr>, \<lparr>ref_schema = ''a.b'', ref_name = ''c''\<rparr>,
        \<lparr>ref_schema = ''a'', ref_name = ''b.c''\<rparr>]"
    unfolding selectedList_def collision_sorted
    by (simp add: sortResolved_def collisionState_def tableOf_def tableKey_def toRef_def)
  show ?thesis
    unfolding t s using m d by (simp add: collisionOrder_def)
qed

text \<open>
  C6 (amended). The only event that invokes \<open>sort_tables_by_dependency\<close> is the click on
  the sort button, through \<open>handleSort\<close>, which sends the selected tables. When the call
  returns, \<open>sourceTables\<close> keeps its tables; if the keys \<open>schema.name\<close> of the returned
  tables are pairwise distinct (and the list is no longer than \<open>MAX_SAFE_INTEGER\<close>, as
  every JavaScript array is), \<open>sourceTables\<close> becomes the tables whose key is in the
  list, in the order of their keys in the list, followed by the other tables in their
  previous order, and if the list is moreover a permutation of the selected tables, the
  selected tables then stand in the returned order. \<open>handleMigrate\<close> invokes no sort
  and leaves \<open>sourceTables\<close> as it is.
\<close>

theorem dependency_sort_only_on_request:
  "(\<forall>s e s' cmds. step s e = Some (s', cmds) \<and> filter isSortCommand cmds \<noteq> [] \<longrightarrow>
      e = SortClick
      \<and> (\<exists>c. sourceConnection (app s) = Some c
             \<and> cmds = [SortTablesByDependency (conn_id c) (selectedList (app s))]))
   \<and> (\<forall>c. sourceConnection st = Some c \<and> selectedTables st \<noteq> {} \<longrightarrow>
        handleSort st =
          (st\<lparr>isSorting := True\<rparr>, [SortTablesByDependency (conn_id c) (selectedList st)]))
   \<and> mset (sourceTables (sortResolved refs st)) = mset (sourceTables st)
   \<and> (distinct (map refKey refs) \<and> int (length refs) \<le> MAX_SAFE_INTEGER \<longrightarrow>
        sourceTables (sortResolved refs st) =
          concat (map (\<lambda>k. filter (\<lambda>t. tableKey t = k) (sourceTables st)) (map refKey refs))
          @ filter (\<lambda>t. tableKey t \<notin> set (map refKey refs)) (sourceTables st)
        \<and> (mset refs = mset (selectedList st) \<longrightarrow> selectedList (sortResolved refs st) = refs))
   \<and> filter isSortCommand (snd (handleMigrate st)) = []
   \<and> sourceTables (fst (handleMigrate st)) = sourceTables st
   \<and> (\<forall>s s' cmds. step s MigrateClick = Some (s', cmds) \<longrightarrow>
        filter isSortCommand cmds = [] \<and> sourceTables (app s') = sourceTables (app s))"
proof -
  have a: "e = SortClick
      \<and> (\<exists>c. sourceConnection (app s) = Some c
             \<and> cmds = [SortTablesByDependency (conn_id c) (selectedList (app s))])"
    if "step s e = Some (s', cmds)" "filter isSortCommand cmds \<noteq> []" for s e s' cmds
  proof -
    from appStep_sort [OF step_appStep(1) [OF that(1)] that(2)]
    have e: "e = SortClick" and h: "handleSort (app s) = (app s', cmds)" by simp_all
    from handleSort_command [OF h that(2)] e show ?thesis by blast
  qed
  have b: "handleSort st =
      (st\<lparr>isSorting := True\<rparr>, [SortTablesByDependency (conn_id c) (selectedList st)])"
    if "sourceConnection st = Some c" "selectedTables st \<noteq> {}" for c
    using that by (simp add: handleSort_def)
  have c: "filter isSortCommand cmds = [] \<and> sourceTables (app s') = sourceTables (app s)"
    if "step s MigrateClick = Some (s', cmds)" for s s' cmds
  proof -
    from step_appStep(1) [OF that] have "handleMigrate (app s) = (app s', cmds)"
      by (simp split: if_splits)
    with handleMigrate_no_sort [of "app s"] show ?thesis by simp
  qed
  have d: "sourceTables (sortResolved refs st) =
          concat (map (\<lambda>k. filter (\<lambda>t. tableKey t = k) (sourceTables st)) (map refKey refs))
          @ filter (\<lambda>t. tableKey t \<notin> set (map refKey refs)) (sourceTables st)
        \<and> (mset refs = mset (selectedList st) \<longrightarrow> selectedList (sortResolved refs st) = refs)"
    if "distinct (map refKey refs)" "int (length refs) \<le> MAX_SAFE_INTEGER"
    using sortResolved_tables [OF that, of st] selectedList_after_sort [OF that, of st] by blast
  from a b c d sortResolved_mset [of refs st] handleMigrate_no_sort [of st]
  show ?thesis by blast
qed

lemma demo_sorted_tables:
  "map name (sourceTables (sortResolved demoOrder demoState)) = [''users'', ''orders'', ''audit'']"
  by (simp add: sortResolved_def arraySort_def compareTables_def sortIndex_def sortedMap_def
      demoOrder_def demoState_def demoTables_def demoTable_def tableKey_def refKey_def
      MAX_SAFE_INTEGER_def upt_rec)

theorem dependency_sort_only_on_request_witness:
  "distinct (map refKey demoOrder) \<and> int (length demoOrder) \<le> MAX_SAFE_INTEGER
   \<and> handleSort demoState =
       (demoState\<lparr>isSorting := True\<rparr>, [SortTablesByDependency ''c1'' (selectedList demoState)])
   \<and> map ref_name (selectedList demoState) = [''orders'', ''users'']
   \<and> mset demoOrder = mset (selectedList demoState)
   \<and> map name (sourceTables (sortResolved demoOrder demoState)) = [''users'', ''orders'', ''audit'']
   \<and> selectedList (sortResolved demoOrder demoState) = demoOrder"
proof -
  have d: "distinct (map refKey demoOrder)"
    by (simp add: demoOrder_def refKey_def)
  have b: "int (length demoOrder) \<le> MAX_SAFE_INTEGER"
    by (simp add: demoOrder_def MAX_SAFE_INTEGER_def)
  have c: "sourceConnection demoState = Some demoSource \<and> selectedTables demoState \<noteq> {}"
    by (simp add: demoState_def demoSelection_def)
  have i: "conn_id demoSource = ''c1''"
    by (simp add: demoSource_def)
  have l: "selectedList demoState = [\<lparr>ref_schema = ''public'', ref_name = ''orders''\<rparr>,
                \<lparr>ref_schema = ''public'', ref_name = ''users''\<rparr>]"
    by (simp add: selectedList_def demoState_def demoTables_def demoTable_def demoSelection_def
        tableKey_def toRef_def)
  have m: "mset demoOrder = mset (selectedList demoState)"
    unfolding l by (simp add: demoOrder_def)
  show ?thesis
    using dependency_sort_only_on_request [of demoState demoOrder] d b c i l m demo_sorted_tables
    by auto
qed

end
